theory Spec2Isabelle
  imports Complex_Main "HOL-Library.Word"
begin

section \<open>Data model\<close>

text \<open>
  The diff buffer is a \<^verbatim>\<open>Uint8ClampedArray\<close>: a list of bytes, four per pixel
  (R, G, B, A), row-major. Coordinates are JavaScript numbers that may become \<open>-1\<close>
  next to the border, so they are integers; a position in the buffer is
  \<^verbatim>\<open>(y * width + x) * 4\<close>.
\<close>

type_synonym byte = "8 word"
type_synonym pixel = "int \<times> int"

subsection \<open>JavaScript numbers\<close>

text \<open>
  A JavaScript number is an IEEE 754 double: a finite value, given here by the rational
  it denotes, an infinity or \<^verbatim>\<open>NaN\<close>. The sign of zero is not modelled: every zero
  is \<open>+0\<close>.
\<close>

datatype number = Num rat | Infinity | NegInfinity | NaN

text \<open>
  Rounding to the nearest double, ties to the even significand. \<open>exponentOf q\<close> is the
  binary exponent \<open>\<lfloor>log\<^sub>2 q\<rfloor>\<close> of a positive \<open>q\<close>, found from the bit lengths of
  numerator and denominator. A double has a significand of 53 bits, so its last place is
  worth \<open>2\<^sup>e\<^sup>-\<^sup>5\<^sup>2\<close>; below the exponent \<open>-1022\<close> (subnormal numbers) the last
  place stays at \<open>2\<^sup>-\<^sup>1\<^sup>0\<^sup>7\<^sup>4\<close>; a result whose exponent reaches 1024 is infinite.
\<close>

function bitLength :: "int \<Rightarrow> nat" where
  "bitLength i = (if i \<le> 0 then 0 else Suc (bitLength (i div 2)))"
  by pat_completeness auto
termination
  by (relation "measure nat") auto

declare bitLength.simps [simp del]

definition pow2 :: "int \<Rightarrow> rat" where
  "pow2 e = (if 0 \<le> e then 2 ^ nat e else 1 / 2 ^ nat (- e))"

definition exponentOf :: "rat \<Rightarrow> int" where
  "exponentOf q =
     (let (a, b) = quotient_of q;
          e0 = int (bitLength a) - int (bitLength b)
      in if pow2 e0 \<le> q then e0 else e0 - 1)"

definition roundHalfEven :: "rat \<Rightarrow> int" where
  "roundHalfEven m =
     (let f = \<lfloor>m\<rfloor>; d = m - of_int f
      in if d < 1 / 2 then f else if 1 / 2 < d then f + 1 else if even f then f else f + 1)"

definition roundPositive :: "rat \<Rightarrow> rat" where
  "roundPositive q =
     (let e = max (exponentOf q) (- 1022); u = pow2 (e - 52)
      in of_int (roundHalfEven (q / u)) * u)"

definition roundDouble :: "rat \<Rightarrow> number" where
  "roundDouble q =
     (if q = 0 then Num 0
      else (let r = roundPositive \<bar>q\<bar> in
            if 1024 \<le> exponentOf r then (if 0 < q then Infinity else NegInfinity)
            else Num (if 0 < q then r else - r)))"

text \<open>The value of a decimal literal of the source, such as \<^verbatim>\<open>0.8\<close>.\<close>

definition dbl :: "rat \<Rightarrow> rat" where
  "dbl q = (case roundDouble q of Num d \<Rightarrow> d | _ \<Rightarrow> 0)"

text \<open>
  The operators the source applies to numbers: \<^verbatim>\<open>a / b\<close> on finite operands,
  \<^verbatim>\<open>x * y\<close>, \<^verbatim>\<open>Math.min\<close>, \<^verbatim>\<open>Math.ceil\<close> and \<^verbatim>\<open>x > y\<close>.
\<close>

definition divNum :: "rat \<Rightarrow> rat \<Rightarrow> number" where
  "divNum a b =
     (if b = 0 then (if a = 0 then NaN else if 0 < a then Infinity else NegInfinity)
      else roundDouble (a / b))"

fun mulNum :: "number \<Rightarrow> number \<Rightarrow> number" where
  "mulNum (Num a) (Num b) = roundDouble (a * b)"
| "mulNum NaN y = NaN"
| "mulNum x NaN = NaN"
| "mulNum (Num a) Infinity = (if a = 0 then NaN else if 0 < a then Infinity else NegInfinity)"
| "mulNum (Num a) NegInfinity = (if a = 0 then NaN else if 0 < a then NegInfinity else Infinity)"
| "mulNum Infinity (Num b) = (if b = 0 then NaN else if 0 < b then Infinity else NegInfinity)"
| "mulNum NegInfinity (Num b) = (if b = 0 then NaN else if 0 < b then NegInfinity else Infinity)"
| "mulNum Infinity Infinity = Infinity"
| "mulNum NegInfinity NegInfinity = Infinity"
| "mulNum Infinity NegInfinity = NegInfinity"
| "mulNum NegInfinity Infinity = NegInfinity"

fun minNum :: "number \<Rightarrow> number \<Rightarrow> number" where
  "minNum NaN y = NaN"
| "minNum x NaN = NaN"
| "minNum NegInfinity y = NegInfinity"
| "minNum x NegInfinity = NegInfinity"
| "minNum Infinity y = y"
| "minNum x Infinity = x"
| "minNum (Num a) (Num b) = Num (min a b)"

fun ceilNum :: "number \<Rightarrow> number" where
  "ceilNum (Num q) = Num (of_int \<lceil>q\<rceil>)"
| "ceilNum x = x"

fun gtNum :: "number \<Rightarrow> number \<Rightarrow> bool" where
  "gtNum NaN y = False"
| "gtNum x NaN = False"
| "gtNum (Num a) (Num b) = (b < a)"
| "gtNum x Infinity = False"
| "gtNum NegInfinity y = False"
| "gtNum Infinity y = True"
| "gtNum (Num a) NegInfinity = True"

subsection \<open>Objects\<close>

text \<open>
  Option objects. The numbers in them are finite doubles, given by their values. The same
  nine keys occur in two shapes: a resolved configuration, where every key has a value,
  and a caller-supplied object, where a key may be absent (\<open>None\<close>).
\<close>

record ('n, 'b, 'c) options =
  threshold :: 'n
  includeAA :: 'b
  alpha :: 'n
  maxSide :: 'n
  backgroundColor :: 'c
  minClusterSize :: 'n
  maxTotalDiffPixels :: 'n
  maxSignificantClusters :: 'n
  lineShiftThreshold :: 'n

type_synonym config = "(rat, bool, nat list) options"
type_synonym overrides = "(rat option, bool option, nat list option) options"

text \<open>
  The bounds object of a cluster. For an empty pixel list the source returns an object
  without \<^verbatim>\<open>width\<close> and \<^verbatim>\<open>height\<close>.
\<close>

record bbox =
  minX :: int
  minY :: int
  maxX :: int
  maxY :: int
  bwidth :: "int option"
  bheight :: "int option"

record cluster =
  csize :: nat
  pixels :: "pixel list"
  isLineShift :: bool
  bounds :: bbox

record analysis =
  clusters :: "cluster list"
  significantClusters :: nat
  significantPixels :: nat
  totalClusters :: nat

section \<open>ClusterAnalyzer\<close>

text \<open>Reading a typed array out of range gives \<^verbatim>\<open>undefined\<close>, here \<open>None\<close>.\<close>

definition buf_read :: "byte list \<Rightarrow> int \<Rightarrow> byte option" where
  "buf_read buffer i =
     (if 0 \<le> i \<and> i < int (length buffer) then Some (buffer ! nat i) else None)"

text \<open>
  \<^verbatim>\<open>_isDiffPixel(buffer, pos) {
    return buffer[pos] === 255 && buffer[pos + 1] === 0 && buffer[pos + 2] === 0; }\<close>
\<close>

definition isDiffPixel :: "byte list \<Rightarrow> int \<Rightarrow> bool" where
  "isDiffPixel buffer pos \<longleftrightarrow>
     buf_read buffer pos = Some 255 \<and> buf_read buffer (pos + 1) = Some 0
       \<and> buf_read buffer (pos + 2) = Some 0"

definition posOf :: "nat \<Rightarrow> pixel \<Rightarrow> int" where
  "posOf width p = (snd p * int width + fst p) * 4"

definition inBounds :: "nat \<Rightarrow> nat \<Rightarrow> pixel \<Rightarrow> bool" where
  "inBounds width height p \<longleftrightarrow>
     fst p \<ge> 0 \<and> fst p < int width \<and> snd p \<ge> 0 \<and> snd p < int height"

text \<open>
  The two nested loops \<^verbatim>\<open>for dy = -1..1, for dx = -1..1\<close> with
  \<^verbatim>\<open>if (dx === 0 && dy === 0) continue\<close>, as the list of offsets \<open>(dx, dy)\<close> in
  the order the loops visit them.
\<close>

definition neighbourOffsets :: "(int \<times> int) list" where
  "neighbourOffsets =
     concat (map (\<lambda>dy. concat (map (\<lambda>dx. if dx = 0 \<and> dy = 0 then [] else [(dx, dy)])
       [-1, 0, 1])) [-1, 0, 1])"

text \<open>The neighbours of \<open>(x, y)\<close> that pass the bounds test, in loop order.\<close>

definition neighboursInBounds :: "nat \<Rightarrow> nat \<Rightarrow> pixel \<Rightarrow> pixel list" where
  "neighboursInBounds width height p =
     filter (inBounds width height)
       (map (\<lambda>(dx, dy). (fst p + dx, snd p + dy)) neighbourOffsets)"

text \<open>
  \<^verbatim>\<open>_detectLineShift\<close>: the inner loops count the neighbours that are diff pixels
  in the buffer; the outer loop counts the pixels with at most two such neighbours. The
  threshold is read from the analyzer's own \<^verbatim>\<open>this.options\<close>.
\<close>

definition countNeighbours :: "byte list \<Rightarrow> nat \<Rightarrow> nat \<Rightarrow> pixel \<Rightarrow> nat" where
  "countNeighbours buffer width height p =
     fold (\<lambda>n neighbors. if isDiffPixel buffer (posOf width n) then neighbors + 1 else neighbors)
       (neighboursInBounds width height p) 0"

definition countLinelike :: "byte list \<Rightarrow> nat \<Rightarrow> nat \<Rightarrow> pixel list \<Rightarrow> nat" where
  "countLinelike buffer width height clusterPixels =
     fold (\<lambda>p linelikePixels.
        if countNeighbours buffer width height p \<le> 2 then linelikePixels + 1 else linelikePixels)
       clusterPixels 0"

definition detectLineShift :: "config \<Rightarrow> pixel list \<Rightarrow> byte list \<Rightarrow> nat \<Rightarrow> nat \<Rightarrow> bool" where
  "detectLineShift this_options clusterPixels buffer width height =
     (if length clusterPixels = 0 then False
      else gtNum (divNum (of_nat (countLinelike buffer width height clusterPixels))
                    (of_nat (length clusterPixels)))
             (Num (lineShiftThreshold this_options)))"

text \<open>\<^verbatim>\<open>_calculateBounds\<close>: running minimum and maximum, started at the first pixel.\<close>

definition calculateBounds :: "pixel list \<Rightarrow> bbox" where
  "calculateBounds ps =
     (case ps of
        [] \<Rightarrow> \<lparr>minX = 0, minY = 0, maxX = 0, maxY = 0, bwidth = None, bheight = None\<rparr>
      | p0 # _ \<Rightarrow>
          (let (mnx, mxx, mny, mxy) =
                 fold (\<lambda>(x, y) (mnx, mxx, mny, mxy). (min mnx x, max mxx x, min mny y, max mxy y))
                   ps (fst p0, fst p0, snd p0, snd p0)
           in \<lparr>minX = mnx, minY = mny, maxX = mxx, maxY = mxy,
                bwidth = Some (mxx - mnx + 1), bheight = Some (mxy - mny + 1)\<rparr>))"

text \<open>
  The \<^verbatim>\<open>while (queue.length > 0)\<close> loop of \<^verbatim>\<open>_findCluster\<close>. The state is
  the queue, the visited set (shared with the caller), the cluster's pixel list and its
  size counter. A dequeued position that is visited or not a diff pixel is skipped;
  otherwise it is marked, counted and appended, and its in-bounds neighbours that are not
  yet visited are pushed to the back of the queue.
\<close>

function bfs :: "byte list \<Rightarrow> nat \<Rightarrow> nat \<Rightarrow> pixel list \<Rightarrow> int set \<Rightarrow> pixel list \<Rightarrow> nat
    \<Rightarrow> int set \<times> pixel list \<times> nat" where
  "bfs buffer width height [] visited clusterPixels sz = (visited, clusterPixels, sz)"
| "bfs buffer width height (p # queue) visited clusterPixels sz =
     (if posOf width p \<in> visited \<or> \<not> isDiffPixel buffer (posOf width p)
      then bfs buffer width height queue visited clusterPixels sz
      else bfs buffer width height
             (queue @ filter (\<lambda>n. posOf width n \<notin> insert (posOf width p) visited)
                        (neighboursInBounds width height p))
             (insert (posOf width p) visited) (clusterPixels @ [p]) (sz + 1))"
  by pat_completeness auto

text \<open>
  Every iteration either marks one more position of the buffer as visited, or leaves the
  visited set alone and shortens the queue.
\<close>

definition unvisited :: "byte list \<Rightarrow> int set \<Rightarrow> nat set" where
  "unvisited buffer visited = {i. i < length buffer \<and> int i \<notin> visited}"

lemma finite_unvisited: "finite (unvisited buffer visited)"
  by (simp add: unvisited_def)

lemma isDiffPixel_in_buffer:
  "isDiffPixel buffer pos \<Longrightarrow> 0 \<le> pos \<and> pos < int (length buffer)"
  by (simp add: isDiffPixel_def buf_read_def split: if_splits)

lemma unvisited_insert_less:
  assumes "isDiffPixel buffer pos" and "pos \<notin> visited"
  shows "card (unvisited buffer (insert pos visited)) < card (unvisited buffer visited)"
proof -
  from assms(1) have r: "0 \<le> pos" "pos < int (length buffer)"
    using isDiffPixel_in_buffer by blast+
  have "nat pos \<in> unvisited buffer visited"
    using r assms(2) by (simp add: unvisited_def)
  moreover have "nat pos \<notin> unvisited buffer (insert pos visited)"
    using r by (simp add: unvisited_def)
  moreover have "unvisited buffer (insert pos visited) \<subseteq> unvisited buffer visited"
    by (auto simp: unvisited_def)
  ultimately have "unvisited buffer (insert pos visited) \<subset> unvisited buffer visited"
    by blast
  then show ?thesis
    by (rule psubset_card_mono [OF finite_unvisited])
qed

termination bfs
proof (relation "measures [\<lambda>(buffer, width, height, queue, visited, cp, sz).
                              card (unvisited buffer visited),
                           \<lambda>(buffer, width, height, queue, visited, cp, sz). length queue]")
  show "wf (measures [\<lambda>(buffer, width, height, queue, visited, cp, sz).
                              card (unvisited buffer visited),
                           \<lambda>(buffer, width, height, queue, visited, cp, sz). length queue])"
    by simp
next
  fix buffer :: "byte list" and width height :: nat and p :: pixel and queue :: "pixel list"
    and visited :: "int set" and clusterPixels :: "pixel list" and sz :: nat
  show "((buffer, width, height, queue, visited, clusterPixels, sz),
         (buffer, width, height, p # queue, visited, clusterPixels, sz))
        \<in> measures [\<lambda>(buffer, width, height, queue, visited, cp, sz).
                              card (unvisited buffer visited),
                           \<lambda>(buffer, width, height, queue, visited, cp, sz). length queue]"
    by simp
next
  fix buffer :: "byte list" and width height :: nat and p :: pixel and queue :: "pixel list"
    and visited :: "int set" and clusterPixels :: "pixel list" and sz :: nat
  assume "\<not> (posOf width p \<in> visited \<or> \<not> isDiffPixel buffer (posOf width p))"
  then have "card (unvisited buffer (insert (posOf width p) visited))
               < card (unvisited buffer visited)"
    using unvisited_insert_less by blast
  then show "((buffer, width, height,
          queue @ filter (\<lambda>n. posOf width n \<notin> insert (posOf width p) visited)
                    (neighboursInBounds width height p),
          insert (posOf width p) visited, clusterPixels @ [p], sz + 1),
         (buffer, width, height, p # queue, visited, clusterPixels, sz))
        \<in> measures [\<lambda>(buffer, width, height, queue, visited, cp, sz).
                              card (unvisited buffer visited),
                           \<lambda>(buffer, width, height, queue, visited, cp, sz). length queue]"
    by simp
qed

text \<open>
  \<^verbatim>\<open>_findCluster\<close> returns the cluster object; the visited set it has updated is
  returned beside it.
\<close>

definition findCluster ::
  "config \<Rightarrow> byte list \<Rightarrow> int \<Rightarrow> int \<Rightarrow> nat \<Rightarrow> nat \<Rightarrow> int set \<Rightarrow> cluster \<times> int set" where
  "findCluster this_options buffer startX startY width height visited =
     (let (visited', clusterPixels, sz) = bfs buffer width height [(startX, startY)] visited [] 0;
          isLineShift = detectLineShift this_options clusterPixels buffer width height
      in (\<lparr>csize = sz, pixels = clusterPixels, isLineShift = isLineShift,
            bounds = calculateBounds clusterPixels\<rparr>, visited'))"

text \<open>
  \<^verbatim>\<open>analyzeClusters\<close>: the body of the two scan loops at one position, the scan
  itself (rows outermost), and the significance summary. \<^verbatim>\<open>minClusterSize\<close> is read
  from the \<^verbatim>\<open>options\<close> argument.
\<close>

definition scanPixel ::
  "config \<Rightarrow> byte list \<Rightarrow> nat \<Rightarrow> nat \<Rightarrow> pixel \<Rightarrow> int set \<times> cluster list
     \<Rightarrow> int set \<times> cluster list" where
  "scanPixel this_options buffer width height p st =
     (let (visited, cs) = st; pos = posOf width p in
      if isDiffPixel buffer pos \<and> pos \<notin> visited
      then (let (cluster, visited') =
                  findCluster this_options buffer (fst p) (snd p) width height visited
            in (visited', cs @ [cluster]))
      else (visited, cs))"

definition scanOrder :: "nat \<Rightarrow> nat \<Rightarrow> pixel list" where
  "scanOrder width height =
     concat (map (\<lambda>y. map (\<lambda>x. (int x, int y)) [0..<width]) [0..<height])"

definition findAllClusters :: "config \<Rightarrow> byte list \<Rightarrow> nat \<Rightarrow> nat \<Rightarrow> cluster list" where
  "findAllClusters this_options buffer width height =
     snd (fold (scanPixel this_options buffer width height) (scanOrder width height) ({}, []))"

definition isSignificant :: "config \<Rightarrow> cluster \<Rightarrow> bool" where
  "isSignificant options c \<longleftrightarrow> \<not> isLineShift c \<and> of_nat (csize c) \<ge> minClusterSize options"

definition analyzeClusters :: "config \<Rightarrow> byte list \<Rightarrow> nat \<Rightarrow> nat \<Rightarrow> config \<Rightarrow> analysis" where
  "analyzeClusters this_options diffBuffer width height options =
     (let cs = findAllClusters this_options diffBuffer width height;
          significant = filter (isSignificant options) cs;
          significantPixels = fold (\<lambda>cluster sum. sum + csize cluster) significant 0
      in \<lparr>clusters = cs, significantClusters = length significant,
            significantPixels = significantPixels, totalClusters = length cs\<rparr>)"

section \<open>ImageProcessor\<close>

text \<open>
  A canvas or an \<^verbatim>\<open>ImageData\<close> object: its dimensions and its RGBA bytes. Decoding,
  resampling and compositing are done by the canvas library and the diff by
  \<^verbatim>\<open>pixelmatch\<close>; neither is part of the repository, so they are parameters of the
  model. \<^verbatim>\<open>pixelmatch\<close> returns the number of differing pixels and fills the output
  buffer, which the model returns beside the count. \<open>canvasSide\<close> is the side the
  library gives a canvas that is asked for with a number that is no non-negative integer.
\<close>

record canvas =
  cwidth :: nat
  cheight :: nat
  cdata :: "byte list"

record externals =
  decodeImage :: "byte list \<Rightarrow> canvas"
  drawResized :: "canvas \<Rightarrow> nat \<Rightarrow> nat \<Rightarrow> byte list"
  drawOnBackground :: "canvas \<Rightarrow> nat \<Rightarrow> nat \<Rightarrow> nat list \<Rightarrow> byte list"
  pixelmatch :: "byte list \<Rightarrow> byte list \<Rightarrow> nat \<Rightarrow> nat \<Rightarrow> rat \<Rightarrow> bool \<Rightarrow> rat \<Rightarrow> nat \<times> byte list"
  canvasSide :: "number \<Rightarrow> nat"

text \<open>
  The shapes of input \<^verbatim>\<open>_toCanvas\<close> tells apart: a canvas, an
  \<^verbatim>\<open>ImageData\<close>, a \<^verbatim>\<open>Buffer\<close> of encoded bytes, an \<^verbatim>\<open>Image\<close> object, and
  anything else, of which only its \<^verbatim>\<open>typeof\<close> is kept: a falsy primitive
  (\<^verbatim>\<open>0\<close>, \<^verbatim>\<open>NaN\<close>, the empty string, \<^verbatim>\<open>false\<close>) or any other value. A missing
  image (\<^verbatim>\<open>null\<close>, \<^verbatim>\<open>undefined\<close>) is \<open>None\<close> of \<open>image_input option\<close>.
\<close>

datatype image_input =
  CanvasIn canvas
  | ImageDataIn canvas
  | BufferIn "byte list"
  | ImageIn canvas
  | FalsyIn string
  | OtherIn string

datatype js_error =
  ValidationError string
  | Error string
  | ComparisonError string js_error

fun message :: "js_error \<Rightarrow> string" where
  "message (ValidationError m) = m"
| "message (Error m) = m"
| "message (ComparisonError m cause) = m"

text \<open>
  \<^verbatim>\<open>_toCanvas\<close>. The repository holds two versions of the image processor that differ
  in this method only; the model follows the one that tests \<^verbatim>\<open>typeof input.getContext\<close>.
  A canvas, an \<^verbatim>\<open>ImageData\<close> or an \<^verbatim>\<open>Image\<close> with a zero side passes none of the
  tests and is an object of unsupported type.
\<close>

definition unsupported :: "string \<Rightarrow> js_error" where
  "unsupported ty =
     Error (''Unsupported image input type: '' @ ty
            @ ''. Expected Canvas, ImageData, Buffer, or Image object.'')"

definition toCanvas :: "externals \<Rightarrow> image_input \<Rightarrow> js_error + canvas" where
  "toCanvas ext input =
     (case input of
        CanvasIn c \<Rightarrow>
          if cwidth c \<noteq> 0 \<and> cheight c \<noteq> 0 then Inr c else Inl (unsupported ''object'')
      | ImageDataIn d \<Rightarrow>
          if cwidth d \<noteq> 0 \<and> cheight d \<noteq> 0 then Inr d else Inl (unsupported ''object'')
      | BufferIn b \<Rightarrow> Inr (decodeImage ext b)
      | ImageIn i \<Rightarrow>
          if cwidth i \<noteq> 0 \<and> cheight i \<noteq> 0 then Inr i else Inl (unsupported ''object'')
      | FalsyIn ty \<Rightarrow> Inl (unsupported ty)
      | OtherIn ty \<Rightarrow> Inl (unsupported ty))"

text \<open>
  \<^verbatim>\<open>_calculateScale\<close> and \<^verbatim>\<open>_resizeImage\<close>. The sides of a canvas are
  non-negative integers; every quotient and product is rounded as the source rounds it.
  \<^verbatim>\<open>createCanvas\<close> asked for non-negative integer sides gives a canvas of these sides.
\<close>

definition calculateScale :: "canvas \<Rightarrow> rat \<Rightarrow> number" where
  "calculateScale canvas side =
     (let scale = minNum (divNum side (of_nat (cwidth canvas)))
                    (divNum side (of_nat (cheight canvas)));
          ratio = divNum (of_nat (cwidth canvas)) (of_nat (cheight canvas));
          narrow = (ratio \<noteq> Num 1)
      in if narrow then mulNum scale (Num 2) else scale)"

definition newSide :: "externals \<Rightarrow> number \<Rightarrow> nat" where
  "newSide ext x =
     (case x of
        Num q \<Rightarrow> if 0 \<le> q \<and> q = of_int \<lfloor>q\<rfloor> then nat \<lfloor>q\<rfloor> else canvasSide ext x
      | _ \<Rightarrow> canvasSide ext x)"

definition resizeImage :: "externals \<Rightarrow> canvas \<Rightarrow> number \<Rightarrow> canvas" where
  "resizeImage ext canvas scale =
     (let newWidth = newSide ext (ceilNum (mulNum (Num (of_nat (cwidth canvas))) scale));
          newHeight = newSide ext (ceilNum (mulNum (Num (of_nat (cheight canvas))) scale))
      in \<lparr>cwidth = newWidth, cheight = newHeight,
            cdata = drawResized ext canvas newWidth newHeight\<rparr>)"

definition createStandardizedCanvas ::
  "externals \<Rightarrow> canvas \<Rightarrow> nat \<Rightarrow> nat \<Rightarrow> nat list \<Rightarrow> canvas" where
  "createStandardizedCanvas ext sourceCanvas width height bg =
     \<lparr>cwidth = width, cheight = height,
      cdata = drawOnBackground ext sourceCanvas width height bg\<rparr>"

definition getImageData :: "canvas \<Rightarrow> nat \<Rightarrow> nat \<Rightarrow> canvas" where
  "getImageData c width height = \<lparr>cwidth = width, cheight = height, cdata = cdata c\<rparr>"

record processed =
  actualImageData :: canvas
  expectedImageData :: canvas
  pwidth :: nat
  pheight :: nat

definition processImages ::
  "externals \<Rightarrow> image_input \<Rightarrow> image_input \<Rightarrow> config \<Rightarrow> js_error + processed" where
  "processImages ext actual expected options =
     (case toCanvas ext actual of
        Inl e \<Rightarrow> Inl e
      | Inr actualCanvas \<Rightarrow>
          (case toCanvas ext expected of
             Inl e \<Rightarrow> Inl e
           | Inr expectedCanvas \<Rightarrow>
               (let scale = calculateScale expectedCanvas (maxSide options);
                    resizedActual = resizeImage ext actualCanvas scale;
                    resizedExpected = resizeImage ext expectedCanvas scale;
                    width = cwidth resizedExpected;
                    height = cheight resizedExpected;
                    processedActual = createStandardizedCanvas ext resizedActual width height
                                        (backgroundColor options);
                    processedExpected = createStandardizedCanvas ext resizedExpected width height
                                          (backgroundColor options)
                in Inr \<lparr>actualImageData = getImageData processedActual width height,
                         expectedImageData = getImageData processedExpected width height,
                         pwidth = width, pheight = height\<rparr>)))"

section \<open>Option objects\<close>

text \<open>
  The object spread \<^verbatim>\<open>{ ...a, ...b }\<close> of a resolved configuration and a caller's
  object: key by key, the value of \<open>b\<close> where \<open>b\<close> has the key.
\<close>

definition pick :: "'a option \<Rightarrow> 'a \<Rightarrow> 'a" where
  "pick v d = (case v of Some x \<Rightarrow> x | None \<Rightarrow> d)"

definition spread :: "config \<Rightarrow> overrides \<Rightarrow> config" where
  "spread a b =
     \<lparr>threshold = pick (threshold b) (threshold a),
      includeAA = pick (includeAA b) (includeAA a),
      alpha = pick (alpha b) (alpha a),
      maxSide = pick (maxSide b) (maxSide a),
      backgroundColor = pick (backgroundColor b) (backgroundColor a),
      minClusterSize = pick (minClusterSize b) (minClusterSize a),
      maxTotalDiffPixels = pick (maxTotalDiffPixels b) (maxTotalDiffPixels a),
      maxSignificantClusters = pick (maxSignificantClusters b) (maxSignificantClusters a),
      lineShiftThreshold = pick (lineShiftThreshold b) (lineShiftThreshold a)\<rparr>"

text \<open>A resolved configuration passed on as an options argument: every key present.\<close>

definition allKeys :: "config \<Rightarrow> overrides" where
  "allKeys c =
     \<lparr>threshold = Some (threshold c), includeAA = Some (includeAA c), alpha = Some (alpha c),
      maxSide = Some (maxSide c), backgroundColor = Some (backgroundColor c),
      minClusterSize = Some (minClusterSize c),
      maxTotalDiffPixels = Some (maxTotalDiffPixels c),
      maxSignificantClusters = Some (maxSignificantClusters c),
      lineShiftThreshold = Some (lineShiftThreshold c)\<rparr>"

text \<open>\<^verbatim>\<open>options.key || d\<close> on a number: absent and \<open>0\<close> are falsy.\<close>

definition orDefault :: "rat option \<Rightarrow> rat \<Rightarrow> rat" where
  "orDefault v d = (case v of Some x \<Rightarrow> if x = 0 then d else x | None \<Rightarrow> d)"

section \<open>ImageComparator\<close>

datatype stage = ValidateInputs | ProcessImages | Pixelmatch | AnalyzeClusters | EvaluateSignificance

record details =
  totalDiffPixels :: nat
  significantDiffPixels :: nat
  detailClusters :: "cluster list"
  detailAnalysis :: "analysis option"

record comparison_result =
  ok :: bool
  diffCount :: nat
  diffImageData :: canvas
  details :: details

text \<open>
  \<^verbatim>\<open>_validateInputs\<close> throws when \<^verbatim>\<open>!actual || !expected\<close>: when one of them is
  missing or a falsy primitive. On success the model hands on the two inputs.
\<close>

definition falsy :: "image_input option \<Rightarrow> bool" where
  "falsy x = (case x of None \<Rightarrow> True | Some (FalsyIn ty) \<Rightarrow> True | Some _ \<Rightarrow> False)"

definition validateInputs ::
  "image_input option \<Rightarrow> image_input option \<Rightarrow> js_error + (image_input \<times> image_input)" where
  "validateInputs actual expected =
     (if falsy actual \<or> falsy expected
      then Inl (ValidationError ''Both actual and expected images are required'')
      else (case (actual, expected) of
              (Some a, Some e) \<Rightarrow> Inr (a, e)
            | _ \<Rightarrow> Inl (ValidationError ''Both actual and expected images are required'')))"

definition evaluateSignificance :: "analysis \<Rightarrow> config \<Rightarrow> bool" where
  "evaluateSignificance a options \<longleftrightarrow>
     significantPixels a = 0 \<or>
     (of_nat (significantPixels a) \<le> maxTotalDiffPixels options \<and>
      of_nat (significantClusters a) \<le> maxSignificantClusters options)"

text \<open>
  \<^verbatim>\<open>ImageComparator.compare\<close>. The comparator, its processor and its cluster analyzer
  are constructed with the same \<^verbatim>\<open>this.options\<close>. Beside the outcome the model returns
  the stages the call has entered, in order.
\<close>

definition comparator_compare ::
  "externals \<Rightarrow> config \<Rightarrow> image_input option \<Rightarrow> image_input option \<Rightarrow> overrides
     \<Rightarrow> stage list \<times> (js_error + comparison_result)" where
  "comparator_compare ext this_options actual expected options =
     (let mergedOptions = spread this_options options in
      case validateInputs actual expected of
        Inl e \<Rightarrow> ([ValidateInputs], Inl e)
      | Inr (a, e) \<Rightarrow>
          (case processImages ext a e mergedOptions of
             Inl err \<Rightarrow> ([ValidateInputs, ProcessImages], Inl err)
           | Inr im \<Rightarrow>
               (let width = pwidth im; height = pheight im;
                    (count, diffBuffer) =
                       pixelmatch ext (cdata (actualImageData im)) (cdata (expectedImageData im))
                         width height (threshold mergedOptions) (includeAA mergedOptions)
                         (alpha mergedOptions);
                    image = \<lparr>cwidth = width, cheight = height, cdata = diffBuffer\<rparr>
                in if count = 0
                   then ([ValidateInputs, ProcessImages, Pixelmatch],
                         Inr \<lparr>ok = True, diffCount = 0, diffImageData = image,
                              details = \<lparr>totalDiffPixels = 0, significantDiffPixels = 0,
                                         detailClusters = [], detailAnalysis = None\<rparr>\<rparr>)
                   else (let clusterAnalysis =
                               analyzeClusters this_options diffBuffer width height mergedOptions;
                             verdict = evaluateSignificance clusterAnalysis mergedOptions
                         in ([ValidateInputs, ProcessImages, Pixelmatch, AnalyzeClusters,
                              EvaluateSignificance],
                             Inr \<lparr>ok = verdict, diffCount = count, diffImageData = image,
                                  details =
                                    \<lparr>totalDiffPixels = count,
                                     significantDiffPixels = significantPixels clusterAnalysis,
                                     detailClusters = clusters clusterAnalysis,
                                     detailAnalysis = Some clusterAnalysis\<rparr>\<rparr>)))))"

section \<open>VisualComparisonEngine\<close>

text \<open>
  The constructor: the defaults, then \<^verbatim>\<open>...options\<close> over them. The literals
  \<^verbatim>\<open>0.1\<close> and \<^verbatim>\<open>0.8\<close> denote the doubles nearest to them.
\<close>

definition engine_options :: "overrides \<Rightarrow> config" where
  "engine_options options =
     spread
       \<lparr>threshold = orDefault (threshold options) (1 / 2),
        includeAA = (case includeAA options of Some b \<Rightarrow> b | None \<Rightarrow> False),
        alpha = orDefault (alpha options) (dbl (1 / 10)),
        maxSide = orDefault (maxSide options) 400,
        backgroundColor = (case backgroundColor options of Some c \<Rightarrow> c
                           | None \<Rightarrow> [240, 240, 240, 255]),
        minClusterSize = orDefault (minClusterSize options) 4,
        maxTotalDiffPixels = orDefault (maxTotalDiffPixels options) 40,
        maxSignificantClusters = orDefault (maxSignificantClusters options) 2,
        lineShiftThreshold = orDefault (lineShiftThreshold options) (dbl (4 / 5))\<rparr>
       options"

text \<open>
  \<^verbatim>\<open>compare\<close>: whatever the comparator throws is caught and thrown again as a
  \<^verbatim>\<open>ComparisonError\<close> with the caught error as its cause.
\<close>

definition engine_compare ::
  "externals \<Rightarrow> overrides \<Rightarrow> image_input option \<Rightarrow> image_input option \<Rightarrow> overrides
     \<Rightarrow> stage list \<times> (js_error + comparison_result)" where
  "engine_compare ext ctor_options actual expected options =
     (let this_options = engine_options ctor_options;
          mergedOptions = spread this_options options;
          (trace, r) = comparator_compare ext this_options actual expected (allKeys mergedOptions)
      in case r of
           Inr result \<Rightarrow> (trace, Inr result)
         | Inl error \<Rightarrow>
             (trace, Inl (ComparisonError (''Comparison failed: '' @ message error) error)))"

text \<open>
  \<^verbatim>\<open>batchCompare\<close>: the \<^verbatim>\<open>for ... of\<close> loop with its \<^verbatim>\<open>results\<close> array. An
  entry is either \<^verbatim>\<open>{ name, ...result }\<close> or \<^verbatim>\<open>{ name, ok: false, error }\<close>.
\<close>

record image_pair =
  actual :: "image_input option"
  expected :: "image_input option"
  name :: string

datatype batch_entry =
  ResultEntry string comparison_result
  | ErrorEntry string bool string

fun batchLoop ::
  "externals \<Rightarrow> config \<Rightarrow> overrides \<Rightarrow> image_pair list \<Rightarrow> batch_entry list \<Rightarrow> batch_entry list" where
  "batchLoop ext this_options mergedOptions [] results = results"
| "batchLoop ext this_options mergedOptions (pair # rest) results =
     (case snd (comparator_compare ext this_options (actual pair) (expected pair) mergedOptions) of
        Inr result \<Rightarrow>
          batchLoop ext this_options mergedOptions rest (results @ [ResultEntry (name pair) result])
      | Inl error \<Rightarrow>
          batchLoop ext this_options mergedOptions rest
            (results @ [ErrorEntry (name pair) False (message error)]))"

definition batchCompare ::
  "externals \<Rightarrow> overrides \<Rightarrow> image_pair list \<Rightarrow> overrides \<Rightarrow> batch_entry list" where
  "batchCompare ext ctor_options imagePairs options =
     (let this_options = engine_options ctor_options;
          mergedOptions = spread this_options options
      in batchLoop ext this_options (allKeys mergedOptions) imagePairs [])"

section \<open>Specification vocabulary\<close>

text \<open>
  The differing pixels of a mask: the positions inside the image whose slot passes the
  analyzer's test. \<open>allPixels\<close> lists the pixels of a list of clusters, cluster after
  cluster.
\<close>

definition diffPixels :: "byte list \<Rightarrow> nat \<Rightarrow> nat \<Rightarrow> pixel set" where
  "diffPixels buffer width height =
     {p. inBounds width height p \<and> isDiffPixel buffer (posOf width p)}"

definition allPixels :: "cluster list \<Rightarrow> pixel list" where
  "allPixels cs = concat (map pixels cs)"

text \<open>
  The invariant of the flood fill: the pixels collected so far are pairwise different
  differing pixels, and the visited set holds exactly their positions.
\<close>

definition covers :: "byte list \<Rightarrow> nat \<Rightarrow> nat \<Rightarrow> int set \<Rightarrow> pixel list \<Rightarrow> bool" where
  "covers buffer width height visited ps \<longleftrightarrow>
     distinct ps \<and> set ps \<subseteq> diffPixels buffer width height \<and> posOf width ` set ps = visited"

text \<open>
  What \<^verbatim>\<open>_findCluster\<close> guarantees of a cluster object it returns from a seed that
  is an unvisited differing pixel.
\<close>

definition consistent :: "config \<Rightarrow> byte list \<Rightarrow> nat \<Rightarrow> nat \<Rightarrow> cluster \<Rightarrow> bool" where
  "consistent this_options buffer width height c \<longleftrightarrow>
     pixels c \<noteq> [] \<and> csize c = length (pixels c)
     \<and> isLineShift c = detectLineShift this_options (pixels c) buffer width height"

text \<open>
  The differing neighbours of a pixel, as the specification words them: the positions
  other than the pixel itself, at most one step away in each direction, inside the image,
  whose slot in the mask is marked. A pixel is line-like when it has at most two.
\<close>

definition differingNeighbours :: "byte list \<Rightarrow> nat \<Rightarrow> nat \<Rightarrow> pixel \<Rightarrow> pixel set" where
  "differingNeighbours buffer width height p =
     {n. n \<noteq> p \<and> \<bar>fst n - fst p\<bar> \<le> 1 \<and> \<bar>snd n - snd p\<bar> \<le> 1
         \<and> inBounds width height n \<and> isDiffPixel buffer (posOf width n)}"

definition lineLike :: "byte list \<Rightarrow> nat \<Rightarrow> nat \<Rightarrow> pixel \<Rightarrow> bool" where
  "lineLike buffer width height p \<longleftrightarrow> card (differingNeighbours buffer width height p) \<le> 2"

text \<open>The empty options object \<^verbatim>\<open>{}\<close>.\<close>

definition noOptions :: overrides where
  "noOptions =
     \<lparr>threshold = None, includeAA = None, alpha = None, maxSide = None, backgroundColor = None,
      minClusterSize = None, maxTotalDiffPixels = None, maxSignificantClusters = None,
      lineShiftThreshold = None\<rparr>"

section \<open>Example inputs\<close>

text \<open>
  A stand-in for the external collaborators, used in the examples: decoding and drawing
  copy bytes, and the diff returns a prescribed count and mask. \<open>redBlock\<close> is a 2 by 2
  mask with every pixel marked; \<open>differResult\<close> and \<open>sameResult\<close> are what the
  comparator returns for a prescribed diff of \<open>redBlock\<close> with count 4, and for a
  prescribed diff with count 0. \<open>portrait\<close> and \<open>candidate\<close> are two canvases of
  different sizes, \<open>threePairs\<close> a batch whose second pair has an input of no supported
  shape, and \<open>overrideResult\<close> what the engine returns for a one-pixel image whose only
  pixel is marked.
\<close>

definition stubLibrary :: "nat \<Rightarrow> byte list \<Rightarrow> externals" where
  "stubLibrary count buffer =
     \<lparr>decodeImage = (\<lambda>b. \<lparr>cwidth = 1, cheight = 1, cdata = b\<rparr>),
      drawResized = (\<lambda>c w h. cdata c),
      drawOnBackground = (\<lambda>c w h bg. cdata c),
      pixelmatch = (\<lambda>a e w h t aa al. (count, buffer)),
      canvasSide = (\<lambda>x. 0)\<rparr>"

definition redBlock :: "byte list" where
  "redBlock = [255, 0, 0, 255, 255, 0, 0, 255, 255, 0, 0, 255, 255, 0, 0, 255]"

definition square2 :: "image_input option" where
  "square2 = Some (CanvasIn \<lparr>cwidth = 2, cheight = 2, cdata = []\<rparr>)"

definition differResult :: comparison_result where
  "differResult =
     \<lparr>ok = True, diffCount = 4,
      diffImageData = \<lparr>cwidth = 2, cheight = 2, cdata = redBlock\<rparr>,
      details =
        \<lparr>totalDiffPixels = 4, significantDiffPixels = 4,
         detailClusters =
           [\<lparr>csize = 4, pixels = [(0, 0), (1, 0), (0, 1), (1, 1)], isLineShift = False,
             bounds = \<lparr>minX = 0, minY = 0, maxX = 1, maxY = 1,
                        bwidth = Some 2, bheight = Some 2\<rparr>\<rparr>],
         detailAnalysis =
           Some \<lparr>clusters =
                  [\<lparr>csize = 4, pixels = [(0, 0), (1, 0), (0, 1), (1, 1)],
                    isLineShift = False,
                    bounds = \<lparr>minX = 0, minY = 0, maxX = 1, maxY = 1,
                               bwidth = Some 2, bheight = Some 2\<rparr>\<rparr>],
                 significantClusters = 1, significantPixels = 4, totalClusters = 1\<rparr>\<rparr>\<rparr>"

definition sameResult :: comparison_result where
  "sameResult =
     \<lparr>ok = True, diffCount = 0,
      diffImageData = \<lparr>cwidth = 2, cheight = 2, cdata = []\<rparr>,
      details = \<lparr>totalDiffPixels = 0, significantDiffPixels = 0,
                 detailClusters = [], detailAnalysis = None\<rparr>\<rparr>"

definition portrait :: canvas where
  "portrait = \<lparr>cwidth = 100, cheight = 200, cdata = []\<rparr>"

definition candidate :: canvas where
  "candidate = \<lparr>cwidth = 30, cheight = 50, cdata = []\<rparr>"

definition threePairs :: "image_pair list" where
  "threePairs =
     [\<lparr>actual = square2, expected = square2, name = ''first''\<rparr>,
      \<lparr>actual = Some (OtherIn ''string''), expected = square2, name = ''second''\<rparr>,
      \<lparr>actual = square2, expected = square2, name = ''third''\<rparr>]"

definition onePixel :: "image_input option" where
  "onePixel = Some (CanvasIn \<lparr>cwidth = 1, cheight = 1, cdata = []\<rparr>)"

definition overrideResult :: comparison_result where
  "overrideResult =
     \<lparr>ok = True, diffCount = 1,
      diffImageData = \<lparr>cwidth = 1, cheight = 1, cdata = [255, 0, 0, 255]\<rparr>,
      details =
        \<lparr>totalDiffPixels = 1, significantDiffPixels = 0,
         detailClusters =
           [\<lparr>csize = 1, pixels = [(0, 0)], isLineShift = True,
             bounds = \<lparr>minX = 0, minY = 0, maxX = 0, maxY = 0,
                        bwidth = Some 1, bheight = Some 1\<rparr>\<rparr>],
         detailAnalysis =
           Some \<lparr>clusters =
                  [\<lparr>csize = 1, pixels = [(0, 0)], isLineShift = True,
                    bounds = \<lparr>minX = 0, minY = 0, maxX = 0, maxY = 0,
                               bwidth = Some 1, bheight = Some 1\<rparr>\<rparr>],
                 significantClusters = 0, significantPixels = 0, totalClusters = 1\<rparr>\<rparr>\<rparr>"

text \<open>
  A 3 by 3 mask with a marked centre and three marked arms that touch the centre only, and
  what the engine returns for it when the call asks for \<^verbatim>\<open>lineShiftThreshold\<close> 0.5 and
  \<^verbatim>\<open>maxTotalDiffPixels\<close> 3. \<open>narrowCanvas\<close> is a canvas of 3 by 11.
\<close>

definition starMask :: "byte list" where
  "starMask =
     [255, 0, 0, 255,   0, 0, 0, 0,   255, 0, 0, 255,
        0, 0, 0, 0,   255, 0, 0, 255,   0, 0, 0, 0,
        0, 0, 0, 0,   255, 0, 0, 255,   0, 0, 0, 0]"

definition square3 :: "image_input option" where
  "square3 = Some (CanvasIn \<lparr>cwidth = 3, cheight = 3, cdata = []\<rparr>)"

definition starResult :: comparison_result where
  "starResult =
     \<lparr>ok = False, diffCount = 4,
      diffImageData = \<lparr>cwidth = 3, cheight = 3, cdata = starMask\<rparr>,
      details =
        \<lparr>totalDiffPixels = 4, significantDiffPixels = 4,
         detailClusters =
           [\<lparr>csize = 4, pixels = [(0, 0), (1, 1), (2, 0), (1, 2)], isLineShift = False,
             bounds = \<lparr>minX = 0, minY = 0, maxX = 2, maxY = 2,
                        bwidth = Some 3, bheight = Some 3\<rparr>\<rparr>],
         detailAnalysis =
           Some \<lparr>clusters =
                  [\<lparr>csize = 4, pixels = [(0, 0), (1, 1), (2, 0), (1, 2)],
                    isLineShift = False,
                    bounds = \<lparr>minX = 0, minY = 0, maxX = 2, maxY = 2,
                               bwidth = Some 3, bheight = Some 3\<rparr>\<rparr>],
                 significantClusters = 1, significantPixels = 4, totalClusters = 1\<rparr>\<rparr>\<rparr>"

definition narrowCanvas :: canvas where
  "narrowCanvas = \<lparr>cwidth = 3, cheight = 11, cdata = []\<rparr>"

text \<open>The entry \<^verbatim>\<open>batchCompare\<close> pushes for one pair.\<close>

definition entryOf :: "externals \<Rightarrow> config \<Rightarrow> overrides \<Rightarrow> image_pair \<Rightarrow> batch_entry" where
  "entryOf ext this_options mergedOptions pair =
     (case snd (comparator_compare ext this_options (actual pair) (expected pair) mergedOptions) of
        Inr result \<Rightarrow> ResultEntry (name pair) result
      | Inl error \<Rightarrow> ErrorEntry (name pair) False (message error))"

section \<open>The flood fill visits every differing pixel once\<close>

lemma posOf_inj:
  assumes "inBounds width height p" and "inBounds width height q"
    and "posOf width p = posOf width q"
  shows "p = q"
proof -
  obtain x y where p: "p = (x, y)" by (cases p)
  obtain x' y' where q: "q = (x', y')" by (cases q)
  from assms(1,2) have b: "0 \<le> x" "x < int width" "0 \<le> x'" "x' < int width"
    by (simp_all add: inBounds_def p q)
  from assms(3) have e: "y * int width + x = y' * int width + x'"
    by (simp add: posOf_def p q)
  have "(y * int width + x) mod int width = x" "(y' * int width + x') mod int width = x'"
    using b by simp_all
  with e have x: "x = x'" by simp
  have "(y * int width + x) div int width = y" "(y' * int width + x') div int width = y'"
    using b by simp_all
  with e have "y = y'" by simp
  with x show ?thesis by (simp add: p q)
qed

lemma neighboursInBounds_inBounds:
  "n \<in> set (neighboursInBounds width height p) \<Longrightarrow> inBounds width height n"
  by (simp add: neighboursInBounds_def)

lemma covers_snoc:
  assumes "covers buffer width height visited ps"
    and "inBounds width height p" and "isDiffPixel buffer (posOf width p)"
    and "posOf width p \<notin> visited"
  shows "covers buffer width height (insert (posOf width p) visited) (ps @ [p])"
  using assms by (auto simp: covers_def diffPixels_def)

lemma bfs_covers:
  assumes "\<forall>q \<in> set queue. inBounds width height q"
    and "covers buffer width height visited (base @ cp)"
    and "bfs buffer width height queue visited cp sz = (visited', cp', sz')"
  shows "covers buffer width height visited' (base @ cp') \<and> visited \<subseteq> visited'
           \<and> sz' + length cp = sz + length cp'"
  using assms
proof (induction buffer width height queue visited cp sz rule: bfs.induct)
  case (1 buffer width height visited clusterPixels sz)
  then show ?case by simp
next
  case (2 buffer width height p queue visited clusterPixels sz)
  show ?case
  proof (cases "posOf width p \<in> visited \<or> \<not> isDiffPixel buffer (posOf width p)")
    case True
    with "2.prems" "2.IH"(1) show ?thesis by simp
  next
    case False
    let ?q = "queue @ filter (\<lambda>n. posOf width n \<notin> insert (posOf width p) visited)
                        (neighboursInBounds width height p)"
    have q: "\<forall>q \<in> set ?q. inBounds width height q"
      using "2.prems"(1) by (auto dest: neighboursInBounds_inBounds)
    have c: "covers buffer width height (insert (posOf width p) visited)
               (base @ clusterPixels @ [p])"
      using covers_snoc [of buffer width height visited "base @ clusterPixels" p]
        "2.prems"(1,2) False by simp
    have r: "bfs buffer width height ?q (insert (posOf width p) visited)
               (clusterPixels @ [p]) (sz + 1) = (visited', cp', sz')"
      using "2.prems"(3) False by simp
    from "2.IH"(2) [OF False q c r] show ?thesis by auto
  qed
qed

lemma bfs_visited_mono:
  "bfs buffer width height queue visited cp sz = (visited', cp', sz') \<Longrightarrow> visited \<subseteq> visited'"
proof (induction buffer width height queue visited cp sz rule: bfs.induct)
  case (1 buffer width height visited clusterPixels sz)
  then show ?case by simp
next
  case (2 buffer width height p queue visited clusterPixels sz)
  then show ?case
    by (cases "posOf width p \<in> visited \<or> \<not> isDiffPixel buffer (posOf width p)") auto
qed

lemma bfs_seed:
  assumes "isDiffPixel buffer (posOf width p)"
    and "bfs buffer width height [p] visited cp sz = (visited', cp', sz')"
  shows "posOf width p \<in> visited'"
proof (cases "posOf width p \<in> visited")
  case True
  with bfs_visited_mono [OF assms(2)] show ?thesis by blast
next
  case False
  with assms have "bfs buffer width height
      (filter (\<lambda>n. posOf width n \<notin> insert (posOf width p) visited)
         (neighboursInBounds width height p))
      (insert (posOf width p) visited) (cp @ [p]) (sz + 1) = (visited', cp', sz')"
    by simp
  from bfs_visited_mono [OF this] show ?thesis by blast
qed

lemma scanPixel_covers:
  assumes "inBounds width height p"
    and "covers buffer width height visited (allPixels cs)"
    and "scanPixel this_options buffer width height p (visited, cs) = (visited', cs')"
  shows "covers buffer width height visited' (allPixels cs') \<and> visited \<subseteq> visited'
           \<and> (isDiffPixel buffer (posOf width p) \<longrightarrow> posOf width p \<in> visited')
           \<and> (list_all (consistent this_options buffer width height) cs
                 \<longrightarrow> list_all (consistent this_options buffer width height) cs')"
proof (cases "isDiffPixel buffer (posOf width p) \<and> posOf width p \<notin> visited")
  case False
  with assms show ?thesis by (auto simp: scanPixel_def)
next
  case True
  obtain v1 cp1 sz1 where b: "bfs buffer width height [(fst p, snd p)] visited [] 0 = (v1, cp1, sz1)"
    by (cases "bfs buffer width height [(fst p, snd p)] visited [] 0") auto
  let ?c = "\<lparr>csize = sz1, pixels = cp1,
              isLineShift = detectLineShift this_options cp1 buffer width height,
              bounds = calculateBounds cp1\<rparr>"
  from True b assms(3) have v: "visited' = v1" and cs': "cs' = cs @ [?c]"
    by (auto simp: scanPixel_def findCluster_def)
  have inv: "covers buffer width height v1 (allPixels cs @ cp1) \<and> visited \<subseteq> v1
          \<and> sz1 + length ([]::pixel list) = 0 + length cp1"
    by (rule bfs_covers [OF _ _ b]) (use assms(1,2) in simp_all)
  have seed: "posOf width p \<in> v1"
    using bfs_seed [of buffer width p height visited "[]" 0 v1 cp1 sz1] True b by simp
  have "posOf width ` set (allPixels cs) = visited"
    "posOf width ` (set (allPixels cs) \<union> set cp1) = v1"
    using assms(2) inv by (simp_all add: covers_def)
  with seed True have "cp1 \<noteq> []"
    by auto
  with inv seed show ?thesis
    by (simp add: v cs' allPixels_def consistent_def)
qed

lemma scan_covers:
  assumes "\<forall>p \<in> set ps. inBounds width height p"
    and "covers buffer width height visited (allPixels cs)"
    and "fold (scanPixel this_options buffer width height) ps (visited, cs) = (visited', cs')"
  shows "covers buffer width height visited' (allPixels cs') \<and> visited \<subseteq> visited'
           \<and> (\<forall>p \<in> set ps. isDiffPixel buffer (posOf width p) \<longrightarrow> posOf width p \<in> visited')
           \<and> (list_all (consistent this_options buffer width height) cs
                 \<longrightarrow> list_all (consistent this_options buffer width height) cs')"
  using assms
proof (induction ps arbitrary: visited cs)
  case Nil
  then show ?case by simp
next
  case (Cons p ps)
  obtain v1 cs1 where s: "scanPixel this_options buffer width height p (visited, cs) = (v1, cs1)"
    by (cases "scanPixel this_options buffer width height p (visited, cs)") auto
  have one: "covers buffer width height v1 (allPixels cs1) \<and> visited \<subseteq> v1
           \<and> (isDiffPixel buffer (posOf width p) \<longrightarrow> posOf width p \<in> v1)
           \<and> (list_all (consistent this_options buffer width height) cs
                 \<longrightarrow> list_all (consistent this_options buffer width height) cs1)"
    by (rule scanPixel_covers [OF _ _ s]) (use Cons.prems in simp_all)
  have rest: "fold (scanPixel this_options buffer width height) ps (v1, cs1) = (visited', cs')"
    using Cons.prems(3) s by simp
  have "covers buffer width height visited' (allPixels cs') \<and> v1 \<subseteq> visited'
           \<and> (\<forall>p \<in> set ps. isDiffPixel buffer (posOf width p) \<longrightarrow> posOf width p \<in> visited')
           \<and> (list_all (consistent this_options buffer width height) cs1
                 \<longrightarrow> list_all (consistent this_options buffer width height) cs')"
    by (rule Cons.IH [OF _ _ rest]) (use Cons.prems(1) one in simp_all)
  with one show ?case by auto
qed

lemma set_scanOrder: "p \<in> set (scanOrder width height) \<longleftrightarrow> inBounds width height p"
proof
  assume "p \<in> set (scanOrder width height)"
  then show "inBounds width height p"
    by (auto simp: scanOrder_def inBounds_def)
next
  assume b: "inBounds width height p"
  have grid: "(int i, int j) \<in> set (scanOrder width height)" if "i < width" "j < height" for i j
    using that by (auto simp: scanOrder_def image_iff intro!: bexI [of _ j] bexI [of _ i])
  from b have "nat (fst p) < width" "nat (snd p) < height"
    "p = (int (nat (fst p)), int (nat (snd p)))"
    by (auto simp: inBounds_def)
  with grid [of "nat (fst p)" "nat (snd p)"] show "p \<in> set (scanOrder width height)"
    by simp
qed

lemma findAllClusters_partition:
  "distinct (allPixels (findAllClusters this_options buffer width height))
   \<and> set (allPixels (findAllClusters this_options buffer width height))
       = diffPixels buffer width height
   \<and> list_all (consistent this_options buffer width height)
         (findAllClusters this_options buffer width height)"
proof -
  obtain v cs where f: "fold (scanPixel this_options buffer width height)
      (scanOrder width height) ({}, []) = (v, cs)"
    by (cases "fold (scanPixel this_options buffer width height)
      (scanOrder width height) ({}, [])") auto
  have r: "covers buffer width height v (allPixels cs) \<and> {} \<subseteq> v
           \<and> (\<forall>p \<in> set (scanOrder width height).
                 isDiffPixel buffer (posOf width p) \<longrightarrow> posOf width p \<in> v)
           \<and> (list_all (consistent this_options buffer width height) []
                 \<longrightarrow> list_all (consistent this_options buffer width height) cs)"
    by (rule scan_covers [OF _ _ f])
       (simp_all add: set_scanOrder covers_def allPixels_def)
  have "diffPixels buffer width height \<subseteq> set (allPixels cs)"
  proof
    fix p assume p: "p \<in> diffPixels buffer width height"
    then have "p \<in> set (scanOrder width height)" "isDiffPixel buffer (posOf width p)"
      by (simp_all add: set_scanOrder diffPixels_def)
    moreover from r have "\<forall>p \<in> set (scanOrder width height).
                 isDiffPixel buffer (posOf width p) \<longrightarrow> posOf width p \<in> v"
      by blast
    ultimately have "posOf width p \<in> v"
      by blast
    then obtain q where q: "q \<in> set (allPixels cs)" "posOf width q = posOf width p"
      using r by (auto simp: covers_def)
    then have "q \<in> diffPixels buffer width height"
      using r by (auto simp: covers_def)
    with p q(2) have "q = p"
      using posOf_inj [of width height q p] by (simp add: diffPixels_def)
    with q(1) show "p \<in> set (allPixels cs)" by simp
  qed
  with r f show ?thesis
    by (auto simp: findAllClusters_def covers_def)
qed


lemma distinct_concat_index:
  "distinct (concat xss) \<Longrightarrow> i < length xss \<Longrightarrow> j < length xss
     \<Longrightarrow> p \<in> set (xss ! i) \<Longrightarrow> p \<in> set (xss ! j) \<Longrightarrow> i = j"
proof (induction xss arbitrary: i j)
  case Nil
  then show ?case by simp
next
  case (Cons xs xss)
  show ?case
  proof (cases i)
    case 0
    show ?thesis
    proof (cases j)
      case 0
      with \<open>i = 0\<close> show ?thesis by simp
    next
      case (Suc j')
      with Cons.prems 0 have "p \<in> set xs" "p \<in> set (concat xss)"
        by (auto simp del: nth_mem dest!: nth_mem)
      with Cons.prems(1) show ?thesis by auto
    qed
  next
    case (Suc i')
    show ?thesis
    proof (cases j)
      case 0
      with Cons.prems Suc have "p \<in> set xs" "p \<in> set (concat xss)"
        by (auto simp del: nth_mem dest!: nth_mem)
      with Cons.prems(1) show ?thesis by auto
    next
      case (Suc j')
      with Cons.prems \<open>i = Suc i'\<close> Cons.IH [of i' j'] show ?thesis by simp
    qed
  qed
qed

section \<open>Claims about the cluster analyzer\<close>

text \<open>
  C2. For every diff mask the clusters returned by \<^verbatim>\<open>analyzeClusters\<close> partition the
  differing pixels: listing the pixels of all clusters gives no pixel twice (neither inside
  a cluster nor across clusters), the pixels listed are exactly the differing pixels, every
  differing pixel lies in exactly one cluster of the list, and the \<^verbatim>\<open>size\<close> of every
  cluster is the length of its pixel list.
\<close>

theorem C2_clusters_partition_diff_pixels:
  "distinct (concat (map pixels (clusters (analyzeClusters this_options buffer width height options))))
   \<and> set (concat (map pixels (clusters (analyzeClusters this_options buffer width height options))))
       = diffPixels buffer width height
   \<and> (\<forall>p \<in> diffPixels buffer width height.
         \<exists>!i. i < length (clusters (analyzeClusters this_options buffer width height options))
               \<and> p \<in> set (pixels (clusters (analyzeClusters this_options buffer width height options) ! i)))
   \<and> (\<forall>c \<in> set (clusters (analyzeClusters this_options buffer width height options)).
         csize c = length (pixels c))"
proof -
  let ?cs = "findAllClusters this_options buffer width height"
  have cs: "clusters (analyzeClusters this_options buffer width height options) = ?cs"
    by (simp add: analyzeClusters_def Let_def)
  from findAllClusters_partition [of this_options buffer width height]
  have d: "distinct (concat (map pixels ?cs))"
    and s: "set (concat (map pixels ?cs)) = diffPixels buffer width height"
    and a: "\<forall>c \<in> set ?cs. csize c = length (pixels c)"
    by (simp_all add: allPixels_def list_all_iff consistent_def)
  have "\<exists>!i. i < length ?cs \<and> p \<in> set (pixels (?cs ! i))" if "p \<in> diffPixels buffer width height" for p
  proof -
    from that s obtain c where "c \<in> set ?cs" "p \<in> set (pixels c)"
      by auto
    then obtain i where i: "i < length ?cs" "p \<in> set (pixels (?cs ! i))"
      by (auto simp: in_set_conv_nth)
    moreover have "j = i" if "j < length ?cs" "p \<in> set (pixels (?cs ! j))" for j
      using distinct_concat_index [of "map pixels ?cs" j i p] d i that by simp
    ultimately show ?thesis by blast
  qed
  with d s a show ?thesis unfolding cs by blast
qed

text \<open>
  The theorem at a mask of two pixels, the left one marked: the marked pixel is a
  differing pixel, one cluster is found, and it holds that pixel with size 1.
\<close>

theorem C2_clusters_partition_diff_pixels_witness:
  "(0, 0) \<in> diffPixels [255, 0, 0, 255, 0, 0, 0, 0] 2 1
   \<and> length (clusters (analyzeClusters (engine_options noOptions)
                [255, 0, 0, 255, 0, 0, 0, 0] 2 1 (engine_options noOptions))) = 1
   \<and> (\<exists>!i. i < length (clusters (analyzeClusters (engine_options noOptions)
                [255, 0, 0, 255, 0, 0, 0, 0] 2 1 (engine_options noOptions)))
         \<and> (0, 0) \<in> set (pixels (clusters (analyzeClusters (engine_options noOptions)
                [255, 0, 0, 255, 0, 0, 0, 0] 2 1 (engine_options noOptions)) ! i)))
   \<and> csize (hd (clusters (analyzeClusters (engine_options noOptions)
                [255, 0, 0, 255, 0, 0, 0, 0] 2 1 (engine_options noOptions))))
       = length (pixels (hd (clusters (analyzeClusters (engine_options noOptions)
                [255, 0, 0, 255, 0, 0, 0, 0] 2 1 (engine_options noOptions)))))"
proof -
  let ?cs = "clusters (analyzeClusters (engine_options noOptions)
                [255, 0, 0, 255, 0, 0, 0, 0] 2 1 (engine_options noOptions))"
  have m: "(0, 0) \<in> diffPixels [255, 0, 0, 255, 0, 0, 0, 0] 2 1"
    by (simp add: diffPixels_def inBounds_def posOf_def isDiffPixel_def buf_read_def)
  have l: "length ?cs = 1"
    by code_simp
  then have h: "hd ?cs \<in> set ?cs"
    by (cases ?cs) simp_all
  from m l h
    C2_clusters_partition_diff_pixels [of "engine_options noOptions"
      "[255, 0, 0, 255, 0, 0, 0, 0]" 2 1 "engine_options noOptions"]
  show ?thesis by blast
qed

subsection \<open>Counting neighbours\<close>

lemma fold_count:
  "fold (\<lambda>x n. if P x then n + 1 else n) xs (k::nat) = k + length (filter P xs)"
  by (induction xs arbitrary: k) simp_all

lemma neighbourOffsets_eq:
  "neighbourOffsets = [(-1, -1), (0, -1), (1, -1), (-1, 0), (1, 0), (-1, 1), (0, 1), (1, 1)]"
  by (simp add: neighbourOffsets_def)

lemma distinct_neighbours: "distinct (neighboursInBounds width height p)"
  by (simp add: neighboursInBounds_def neighbourOffsets_eq distinct_map inj_on_def)

lemma set_neighbours:
  "set (neighboursInBounds width height p) =
     {n. n \<noteq> p \<and> \<bar>fst n - fst p\<bar> \<le> 1 \<and> \<bar>snd n - snd p\<bar> \<le> 1 \<and> inBounds width height n}"
proof -
  have "n \<in> (\<lambda>(dx, dy). (fst p + dx, snd p + dy)) ` set neighbourOffsets \<longleftrightarrow>
        n \<noteq> p \<and> \<bar>fst n - fst p\<bar> \<le> 1 \<and> \<bar>snd n - snd p\<bar> \<le> 1" for n
  proof
    assume "n \<in> (\<lambda>(dx, dy). (fst p + dx, snd p + dy)) ` set neighbourOffsets"
    then show "n \<noteq> p \<and> \<bar>fst n - fst p\<bar> \<le> 1 \<and> \<bar>snd n - snd p\<bar> \<le> 1"
      by (cases p) (auto simp: neighbourOffsets_eq)
  next
    assume a: "n \<noteq> p \<and> \<bar>fst n - fst p\<bar> \<le> 1 \<and> \<bar>snd n - snd p\<bar> \<le> 1"
    define dx dy where "dx = fst n - fst p" and "dy = snd n - snd p"
    with a have "dx \<in> {-1, 0, 1}" "dy \<in> {-1, 0, 1}" "\<not> (dx = 0 \<and> dy = 0)"
      by (auto simp: prod_eq_iff)
    then have "(dx, dy) \<in> set neighbourOffsets"
      by (auto simp: neighbourOffsets_eq)
    moreover have "n = (\<lambda>(dx, dy). (fst p + dx, snd p + dy)) (dx, dy)"
      by (simp add: dx_def dy_def)
    ultimately show "n \<in> (\<lambda>(dx, dy). (fst p + dx, snd p + dy)) ` set neighbourOffsets"
      by (rule rev_image_eqI)
  qed
  then show ?thesis
    by (auto simp: neighboursInBounds_def)
qed

lemma countNeighbours_card:
  "countNeighbours buffer width height p = card (differingNeighbours buffer width height p)"
proof -
  let ?ns = "filter (\<lambda>n. isDiffPixel buffer (posOf width n)) (neighboursInBounds width height p)"
  have "countNeighbours buffer width height p = length ?ns"
    by (simp add: countNeighbours_def fold_count)
  also have "\<dots> = card (set ?ns)"
    by (rule distinct_card [symmetric]) (simp add: distinct_neighbours)
  also have "set ?ns = differingNeighbours buffer width height p"
    by (auto simp: set_neighbours differingNeighbours_def)
  finally show ?thesis .
qed

lemma countLinelike_filter:
  "countLinelike buffer width height ps = length (filter (lineLike buffer width height) ps)"
  by (simp add: countLinelike_def fold_count lineLike_def [abs_def] countNeighbours_card)

lemma findAllClusters_consistent:
  "c \<in> set (findAllClusters this_options buffer width height)
     \<Longrightarrow> consistent this_options buffer width height c"
  using findAllClusters_partition [of this_options buffer width height]
  by (simp add: list_all_iff)

text \<open>
  What the analyzer does: the neighbour count of a pixel is the number of its differing
  neighbours in the mask (among the up to eight in-bounds positions around it, whatever
  cluster they belong to); a pixel is counted as line-like exactly when that number is at
  most 2; every cluster found has at least one pixel and is a line shift exactly when the
  line-like count divided by its size, as a double, is greater than the
  \<^verbatim>\<open>lineShiftThreshold\<close> of the analyzer's \<^verbatim>\<open>this.options\<close>; and an empty pixel list
  is never a line shift.
\<close>

lemma line_shift_law:
  "(\<forall>p. countNeighbours buffer width height p = card (differingNeighbours buffer width height p))
   \<and> (\<forall>p. lineLike buffer width height p
          \<longleftrightarrow> card (differingNeighbours buffer width height p) \<le> 2)
   \<and> (\<forall>ps. countLinelike buffer width height ps
             = length (filter (lineLike buffer width height) ps))
   \<and> (\<forall>c \<in> set (clusters (analyzeClusters this_options buffer width height options)).
         0 < csize c \<and>
         (isLineShift c \<longleftrightarrow>
            gtNum (divNum (of_nat (countLinelike buffer width height (pixels c)))
                     (of_nat (csize c)))
              (Num (lineShiftThreshold this_options))))
   \<and> \<not> detectLineShift this_options [] buffer width height"
proof -
  have "0 < csize c \<and>
         (isLineShift c \<longleftrightarrow>
            gtNum (divNum (of_nat (countLinelike buffer width height (pixels c)))
                     (of_nat (csize c)))
              (Num (lineShiftThreshold this_options)))"
    if "c \<in> set (clusters (analyzeClusters this_options buffer width height options))" for c
  proof -
    from that have "consistent this_options buffer width height c"
      by (simp add: analyzeClusters_def Let_def findAllClusters_consistent)
    then show ?thesis
      by (simp add: consistent_def detectLineShift_def)
  qed
  then show ?thesis
    by (simp add: countNeighbours_card countLinelike_filter detectLineShift_def lineLike_def)
qed

text \<open>
  Rounding shows in the classification: with the threshold \<open>0.3333333333333333\<close>, the
  double nearest to one third, a cluster with 2 line-like pixels of 6 is no line shift,
  since the quotient rounds to the threshold itself, though the threshold's value is
  below \<open>2 / 6\<close>.
\<close>

lemma rounded_ratio_example:
  "dbl (1 / 3) = 6004799503160661 / 18014398509481984
   \<and> \<not> gtNum (divNum 2 6) (Num (dbl (1 / 3)))
   \<and> dbl (1 / 3) < (2 / 6 :: rat)"
  by code_simp

text \<open>
  C3 at a call that asks for \<^verbatim>\<open>lineShiftThreshold\<close> 0.5 on the mask with the centre
  and three arms: the configuration of the comparison holds 0.5, the cluster has 3
  line-like pixels of 4 and \<open>3 / 4 > 0.5\<close>, and still the cluster is reported as no line
  shift, which makes the comparison fail on 4 significant pixels.
\<close>

theorem C3_configured_threshold_not_applied:
  "engine_compare (stubLibrary 4 starMask) (noOptions\<lparr>maxSide := Some 3\<rparr>) square3 square3
     (noOptions\<lparr>maxTotalDiffPixels := Some 3, lineShiftThreshold := Some (1 / 2)\<rparr>)
     = ([ValidateInputs, ProcessImages, Pixelmatch, AnalyzeClusters, EvaluateSignificance],
        Inr starResult)
   \<and> lineShiftThreshold
        (spread (engine_options (noOptions\<lparr>maxSide := Some 3\<rparr>))
           (noOptions\<lparr>maxTotalDiffPixels := Some 3, lineShiftThreshold := Some (1 / 2)\<rparr>))
       = 1 / 2
   \<and> map pixels (detailClusters (details starResult)) = [[(0, 0), (1, 1), (2, 0), (1, 2)]]
   \<and> map csize (detailClusters (details starResult)) = [4]
   \<and> countLinelike starMask 3 3 [(0, 0), (1, 1), (2, 0), (1, 2)] = 3
   \<and> gtNum (divNum 3 4) (Num (1 / 2))
   \<and> map isLineShift (detailClusters (details starResult)) = [False]
   \<and> \<not> ok starResult"
proof -
  have "engine_compare (stubLibrary 4 starMask) (noOptions\<lparr>maxSide := Some 3\<rparr>) square3 square3
     (noOptions\<lparr>maxTotalDiffPixels := Some 3, lineShiftThreshold := Some (1 / 2)\<rparr>)
     = ([ValidateInputs, ProcessImages, Pixelmatch, AnalyzeClusters, EvaluateSignificance],
        Inr starResult)"
    by code_simp
  moreover have "lineShiftThreshold
        (spread (engine_options (noOptions\<lparr>maxSide := Some 3\<rparr>))
           (noOptions\<lparr>maxTotalDiffPixels := Some 3, lineShiftThreshold := Some (1 / 2)\<rparr>))
       = 1 / 2"
    by (simp add: spread_def noOptions_def pick_def)
  moreover have "countLinelike starMask 3 3 [(0, 0), (1, 1), (2, 0), (1, 2)] = 3"
    by code_simp
  moreover have "gtNum (divNum 3 4) (Num (1 / 2))"
    by code_simp
  ultimately show ?thesis
    by (simp add: starResult_def)
qed

subsection \<open>The significance summary\<close>

lemma fold_sum:
  "fold (\<lambda>c s. s + f c) xs (k::nat) = k + sum_list (map f xs)"
  by (induction xs arbitrary: k) simp_all

lemma filter_mono:
  assumes "\<And>x. P x \<Longrightarrow> Q x"
  shows "length (filter P xs) \<le> length (filter Q xs)
         \<and> sum_list (map f (filter P xs)) \<le> (sum_list (map f (filter Q xs)) :: nat)"
  using assms by (induction xs) auto

lemma significantPixels_sum:
  "significantPixels (analyzeClusters this_options buffer width height options) =
     sum_list (map csize (filter (isSignificant options)
       (clusters (analyzeClusters this_options buffer width height options))))"
  by (simp add: analyzeClusters_def Let_def fold_sum)

lemma significantClusters_length:
  "significantClusters (analyzeClusters this_options buffer width height options) =
     length (filter (isSignificant options)
       (clusters (analyzeClusters this_options buffer width height options)))"
  by (simp add: analyzeClusters_def Let_def)

lemma clusters_analyzeClusters:
  "clusters (analyzeClusters this_options buffer width height options) =
     findAllClusters this_options buffer width height"
  by (simp add: analyzeClusters_def Let_def)

text \<open>
  C9. For a fixed mask and configuration, raising \<^verbatim>\<open>minClusterSize\<close> (everything else
  unchanged) increases neither the number of significant clusters nor the sum of
  significant pixels.
\<close>

theorem C9_minClusterSize_monotone:
  assumes "minClusterSize options \<le> m"
  shows "significantClusters
           (analyzeClusters this_options buffer width height (options\<lparr>minClusterSize := m\<rparr>))
         \<le> significantClusters (analyzeClusters this_options buffer width height options)
       \<and> significantPixels
           (analyzeClusters this_options buffer width height (options\<lparr>minClusterSize := m\<rparr>))
         \<le> significantPixels (analyzeClusters this_options buffer width height options)"
proof -
  have "isSignificant options c" if "isSignificant (options\<lparr>minClusterSize := m\<rparr>) c" for c
    using that assms by (simp add: isSignificant_def)
  from filter_mono [of "isSignificant (options\<lparr>minClusterSize := m\<rparr>)" "isSignificant options",
      OF this]
  show ?thesis
    by (simp add: significantPixels_sum significantClusters_length clusters_analyzeClusters)
qed

text \<open>
  The theorem at a solid 2 by 2 block, which is one cluster of size 4 and no line shift:
  with the default minimum 4 it is significant, with 5 it is not.
\<close>

theorem C9_minClusterSize_monotone_witness:
  "minClusterSize (engine_options noOptions) \<le> 5
   \<and> significantClusters (analyzeClusters (engine_options noOptions)
        [255,0,0,255, 255,0,0,255, 255,0,0,255, 255,0,0,255] 2 2
        ((engine_options noOptions)\<lparr>minClusterSize := 5\<rparr>)) = 0
   \<and> significantClusters (analyzeClusters (engine_options noOptions)
        [255,0,0,255, 255,0,0,255, 255,0,0,255, 255,0,0,255] 2 2 (engine_options noOptions)) = 1
   \<and> significantPixels (analyzeClusters (engine_options noOptions)
        [255,0,0,255, 255,0,0,255, 255,0,0,255, 255,0,0,255] 2 2
        ((engine_options noOptions)\<lparr>minClusterSize := 5\<rparr>))
      \<le> significantPixels (analyzeClusters (engine_options noOptions)
        [255,0,0,255, 255,0,0,255, 255,0,0,255, 255,0,0,255] 2 2 (engine_options noOptions))"
proof -
  have m: "minClusterSize (engine_options noOptions) \<le> 5"
    by (simp add: engine_options_def noOptions_def spread_def pick_def orDefault_def)
  have a: "significantClusters (analyzeClusters (engine_options noOptions)
        [255,0,0,255, 255,0,0,255, 255,0,0,255, 255,0,0,255] 2 2
        ((engine_options noOptions)\<lparr>minClusterSize := 5\<rparr>)) = 0"
    by code_simp
  have b: "significantClusters (analyzeClusters (engine_options noOptions)
        [255,0,0,255, 255,0,0,255, 255,0,0,255, 255,0,0,255] 2 2 (engine_options noOptions)) = 1"
    by code_simp
  from m a b C9_minClusterSize_monotone [OF m, of "engine_options noOptions"
      "[255,0,0,255, 255,0,0,255, 255,0,0,255, 255,0,0,255]" 2 2]
  show ?thesis by blast
qed

section \<open>Claims about the comparator\<close>

text \<open>The two ways a call of \<^verbatim>\<open>ImageComparator.compare\<close> returns a result.\<close>

lemma comparator_compare_Inr:
  assumes "comparator_compare ext this_options a e options = (trace, Inr r)"
  obtains (same) a' e' im buf where
      "validateInputs a e = Inr (a', e')"
      "processImages ext a' e' (spread this_options options) = Inr im"
      "pixelmatch ext (cdata (actualImageData im)) (cdata (expectedImageData im))
         (pwidth im) (pheight im) (threshold (spread this_options options))
         (includeAA (spread this_options options)) (alpha (spread this_options options))
       = (0, buf)"
      "r = \<lparr>ok = True, diffCount = 0,
            diffImageData = \<lparr>cwidth = pwidth im, cheight = pheight im, cdata = buf\<rparr>,
            details = \<lparr>totalDiffPixels = 0, significantDiffPixels = 0,
                       detailClusters = [], detailAnalysis = None\<rparr>\<rparr>"
      "trace = [ValidateInputs, ProcessImages, Pixelmatch]"
  | (differ) a' e' im buf count where
      "validateInputs a e = Inr (a', e')"
      "processImages ext a' e' (spread this_options options) = Inr im"
      "pixelmatch ext (cdata (actualImageData im)) (cdata (expectedImageData im))
         (pwidth im) (pheight im) (threshold (spread this_options options))
         (includeAA (spread this_options options)) (alpha (spread this_options options))
       = (count, buf)"
      "0 < count"
      "r = \<lparr>ok = evaluateSignificance
                   (analyzeClusters this_options buf (pwidth im) (pheight im)
                      (spread this_options options))
                   (spread this_options options),
            diffCount = count,
            diffImageData = \<lparr>cwidth = pwidth im, cheight = pheight im, cdata = buf\<rparr>,
            details =
              \<lparr>totalDiffPixels = count,
               significantDiffPixels = significantPixels
                 (analyzeClusters this_options buf (pwidth im) (pheight im)
                    (spread this_options options)),
               detailClusters = clusters
                 (analyzeClusters this_options buf (pwidth im) (pheight im)
                    (spread this_options options)),
               detailAnalysis = Some
                 (analyzeClusters this_options buf (pwidth im) (pheight im)
                    (spread this_options options))\<rparr>\<rparr>"
      "trace = [ValidateInputs, ProcessImages, Pixelmatch, AnalyzeClusters, EvaluateSignificance]"
proof (cases "validateInputs a e")
  case (Inl err)
  with assms show ?thesis
    by (simp add: comparator_compare_def Let_def)
next
  case (Inr ae)
  obtain a' e' where ae: "ae = (a', e')" by (cases ae)
  show ?thesis
  proof (cases "processImages ext a' e' (spread this_options options)")
    case (Inl err)
    with assms Inr ae show ?thesis
      by (simp add: comparator_compare_def Let_def)
  next
    case im: (Inr im)
    obtain count buf where pm:
      "pixelmatch ext (cdata (actualImageData im)) (cdata (expectedImageData im))
         (pwidth im) (pheight im) (threshold (spread this_options options))
         (includeAA (spread this_options options)) (alpha (spread this_options options))
       = (count, buf)"
      by (cases "pixelmatch ext (cdata (actualImageData im)) (cdata (expectedImageData im))
         (pwidth im) (pheight im) (threshold (spread this_options options))
         (includeAA (spread this_options options)) (alpha (spread this_options options))")
    show ?thesis
    proof (cases "count = 0")
      case True
      with assms Inr ae im pm have
        "r = \<lparr>ok = True, diffCount = 0,
            diffImageData = \<lparr>cwidth = pwidth im, cheight = pheight im, cdata = buf\<rparr>,
            details = \<lparr>totalDiffPixels = 0, significantDiffPixels = 0,
                       detailClusters = [], detailAnalysis = None\<rparr>\<rparr>"
        "trace = [ValidateInputs, ProcessImages, Pixelmatch]"
        by (auto simp: comparator_compare_def Let_def)
      with Inr ae im pm True show ?thesis
        by (intro same [of a' e' im buf]) simp_all
    next
      case False
      with assms Inr ae im pm have
        "r = \<lparr>ok = evaluateSignificance
                   (analyzeClusters this_options buf (pwidth im) (pheight im)
                      (spread this_options options))
                   (spread this_options options),
            diffCount = count,
            diffImageData = \<lparr>cwidth = pwidth im, cheight = pheight im, cdata = buf\<rparr>,
            details =
              \<lparr>totalDiffPixels = count,
               significantDiffPixels = significantPixels
                 (analyzeClusters this_options buf (pwidth im) (pheight im)
                    (spread this_options options)),
               detailClusters = clusters
                 (analyzeClusters this_options buf (pwidth im) (pheight im)
                    (spread this_options options)),
               detailAnalysis = Some
                 (analyzeClusters this_options buf (pwidth im) (pheight im)
                    (spread this_options options))\<rparr>\<rparr>"
        "trace = [ValidateInputs, ProcessImages, Pixelmatch, AnalyzeClusters,
                  EvaluateSignificance]"
        by (auto simp: comparator_compare_def Let_def)
      with Inr ae im pm False show ?thesis
        by (intro differ [of a' e' im count buf]) simp_all
    qed
  qed
qed

lemma sum_sizes_card:
  "sum_list (map csize (findAllClusters this_options buffer width height))
     = card (diffPixels buffer width height)"
proof -
  let ?cs = "findAllClusters this_options buffer width height"
  from findAllClusters_partition [of this_options buffer width height]
  have d: "distinct (allPixels ?cs)" and s: "set (allPixels ?cs) = diffPixels buffer width height"
    and c: "\<forall>c \<in> set ?cs. csize c = length (pixels c)"
    by (simp_all add: list_all_iff consistent_def)
  have m: "map csize ?cs = map (\<lambda>c. length (pixels c)) ?cs"
    by (rule map_ext) (use c in simp)
  have "sum_list (map csize ?cs) = sum_list (map (\<lambda>c. length (pixels c)) ?cs)"
    by (simp only: m)
  also have "\<dots> = length (allPixels ?cs)"
    by (simp add: allPixels_def length_concat comp_def)
  also have "\<dots> = card (set (allPixels ?cs))"
    using d by (simp add: distinct_card)
  finally show ?thesis
    using s by simp
qed

lemma sum_filter_le:
  "sum_list (map f (filter P xs)) \<le> (sum_list (map f xs) :: nat)"
  by (induction xs) auto

lemma example_differ:
  "comparator_compare (stubLibrary 4 redBlock) (engine_options (noOptions\<lparr>maxSide := Some 2\<rparr>))
     square2 square2 noOptions =
   ([ValidateInputs, ProcessImages, Pixelmatch, AnalyzeClusters, EvaluateSignificance],
    Inr differResult)"
  by code_simp

lemma example_same:
  "comparator_compare (stubLibrary 0 []) (engine_options (noOptions\<lparr>maxSide := Some 2\<rparr>))
     square2 square2 noOptions =
   ([ValidateInputs, ProcessImages, Pixelmatch], Inr sameResult)"
  by code_simp

lemma card_redBlock: "card (diffPixels redBlock 2 2) = 4"
proof -
  have "sum_list (map csize (findAllClusters (engine_options noOptions) redBlock 2 2)) = 4"
    by code_simp
  then show ?thesis
    by (simp add: sum_sizes_card)
qed

text \<open>
  C4. For every comparison with a positive diff count, the reported
  \<^verbatim>\<open>details.significantDiffPixels\<close> is the sum of the sizes of exactly the reported
  clusters that are no line shifts and whose size is at least \<^verbatim>\<open>minClusterSize\<close> of the
  merged options; and it does not exceed \<^verbatim>\<open>diffCount\<close>, given the diff provider's
  contract that the count it returns is the number of pixels it has marked in the mask.
\<close>

theorem C4_significant_pixels:
  assumes "comparator_compare ext this_options a e options = (trace, Inr r)"
    and "0 < diffCount r"
    and "diffCount r = card (diffPixels (cdata (diffImageData r))
                          (cwidth (diffImageData r)) (cheight (diffImageData r)))"
  shows "significantDiffPixels (details r) =
           sum_list (map csize (filter
             (\<lambda>c. \<not> isLineShift c \<and> minClusterSize (spread this_options options) \<le> of_nat (csize c))
             (detailClusters (details r))))
         \<and> significantDiffPixels (details r) \<le> diffCount r"
  using assms(1)
proof (cases rule: comparator_compare_Inr)
  case (same a' e' im buf)
  with assms(2) show ?thesis by simp
next
  case (differ a' e' im buf count)
  let ?A = "analyzeClusters this_options buf (pwidth im) (pheight im)
              (spread this_options options)"
  have "significantPixels ?A \<le> sum_list (map csize (clusters ?A))"
    by (simp add: significantPixels_sum sum_filter_le)
  also have "\<dots> = card (diffPixels buf (pwidth im) (pheight im))"
    by (simp add: clusters_analyzeClusters sum_sizes_card)
  finally have "significantPixels ?A \<le> count"
    using assms(3) differ(5) by simp
  then show ?thesis
    using differ(5)
    by (simp add: significantPixels_sum isSignificant_def [abs_def])
qed

text \<open>
  The theorem at the example call with the solid block: count 4, four marked pixels, and
  4 significant pixels.
\<close>

theorem C4_significant_pixels_witness:
  "comparator_compare (stubLibrary 4 redBlock) (engine_options (noOptions\<lparr>maxSide := Some 2\<rparr>))
       square2 square2 noOptions
     = ([ValidateInputs, ProcessImages, Pixelmatch, AnalyzeClusters, EvaluateSignificance],
        Inr differResult)
   \<and> 0 < diffCount differResult
   \<and> diffCount differResult = card (diffPixels (cdata (diffImageData differResult))
                         (cwidth (diffImageData differResult)) (cheight (diffImageData differResult)))
   \<and> significantDiffPixels (details differResult) = 4
   \<and> significantDiffPixels (details differResult) \<le> diffCount differResult"
proof -
  have p: "0 < diffCount differResult"
    by (simp add: differResult_def)
  have c: "diffCount differResult = card (diffPixels (cdata (diffImageData differResult))
                         (cwidth (diffImageData differResult)) (cheight (diffImageData differResult)))"
    by (simp add: differResult_def card_redBlock)
  have v: "significantDiffPixels (details differResult) = 4"
    by (simp add: differResult_def)
  from C4_significant_pixels [OF example_differ p c] example_differ p c v show ?thesis
    by blast
qed

text \<open>
  C1. For every call of \<^verbatim>\<open>compare\<close> that returns a result, the \<^verbatim>\<open>diffCount\<close> and
  the mask of the result are what the diff provider returned for the two canonical images.
  If that count is 0 the verdict is \<^verbatim>\<open>ok = true\<close> with an empty cluster list, and the
  cluster analyzer has not been invoked; if it is positive, the analysis reported is that
  of the mask under the merged options, and \<^verbatim>\<open>ok\<close> holds exactly when
  \<^verbatim>\<open>significantPixels\<close> is 0, or \<^verbatim>\<open>significantPixels \<le> maxTotalDiffPixels\<close> and
  \<^verbatim>\<open>significantClusters \<le> maxSignificantClusters\<close>.
\<close>

theorem C1_verdict:
  assumes "comparator_compare ext this_options a e options = (trace, Inr r)"
  shows "(\<exists>a' e' im.
            validateInputs a e = Inr (a', e')
            \<and> processImages ext a' e' (spread this_options options) = Inr im
            \<and> pixelmatch ext (cdata (actualImageData im)) (cdata (expectedImageData im))
                 (pwidth im) (pheight im) (threshold (spread this_options options))
                 (includeAA (spread this_options options)) (alpha (spread this_options options))
               = (diffCount r, cdata (diffImageData r)))
       \<and> (diffCount r = 0 \<longrightarrow>
            ok r \<and> detailClusters (details r) = [] \<and> AnalyzeClusters \<notin> set trace)
       \<and> (0 < diffCount r \<longrightarrow>
            (\<exists>A. detailAnalysis (details r) = Some A
               \<and> A = analyzeClusters this_options (cdata (diffImageData r))
                       (cwidth (diffImageData r)) (cheight (diffImageData r))
                       (spread this_options options)
               \<and> (ok r \<longleftrightarrow>
                    significantPixels A = 0 \<or>
                    (of_nat (significantPixels A) \<le> maxTotalDiffPixels (spread this_options options)
                     \<and> of_nat (significantClusters A)
                           \<le> maxSignificantClusters (spread this_options options)))))"
  using assms
proof (cases rule: comparator_compare_Inr)
  case (same a' e' im buf)
  from same(1,2,3) have "\<exists>a' e' im.
            validateInputs a e = Inr (a', e')
            \<and> processImages ext a' e' (spread this_options options) = Inr im
            \<and> pixelmatch ext (cdata (actualImageData im)) (cdata (expectedImageData im))
                 (pwidth im) (pheight im) (threshold (spread this_options options))
                 (includeAA (spread this_options options)) (alpha (spread this_options options))
               = (diffCount r, cdata (diffImageData r))"
    unfolding same(4) by (intro exI [of _ a'] exI [of _ e'] exI [of _ im]) simp
  then show ?thesis
    using same(4,5) by simp
next
  case (differ a' e' im buf count)
  from differ(1,2,3) have "\<exists>a' e' im.
            validateInputs a e = Inr (a', e')
            \<and> processImages ext a' e' (spread this_options options) = Inr im
            \<and> pixelmatch ext (cdata (actualImageData im)) (cdata (expectedImageData im))
                 (pwidth im) (pheight im) (threshold (spread this_options options))
                 (includeAA (spread this_options options)) (alpha (spread this_options options))
               = (diffCount r, cdata (diffImageData r))"
    unfolding differ(5) by (intro exI [of _ a'] exI [of _ e'] exI [of _ im]) simp
  then show ?thesis
    using differ(4,5) by (simp add: evaluateSignificance_def)
qed

text \<open>The theorem at the two example calls, one with count 0 and one with count 4.\<close>

theorem C1_verdict_witness:
  "comparator_compare (stubLibrary 0 []) (engine_options (noOptions\<lparr>maxSide := Some 2\<rparr>))
        square2 square2 noOptions = ([ValidateInputs, ProcessImages, Pixelmatch], Inr sameResult)
   \<and> diffCount sameResult = 0 \<and> ok sameResult \<and> detailClusters (details sameResult) = []
   \<and> AnalyzeClusters \<notin> set [ValidateInputs, ProcessImages, Pixelmatch]
   \<and> comparator_compare (stubLibrary 4 redBlock) (engine_options (noOptions\<lparr>maxSide := Some 2\<rparr>))
        square2 square2 noOptions
      = ([ValidateInputs, ProcessImages, Pixelmatch, AnalyzeClusters, EvaluateSignificance],
         Inr differResult)
   \<and> 0 < diffCount differResult
   \<and> (\<exists>A. detailAnalysis (details differResult) = Some A
          \<and> significantPixels A = 4 \<and> significantClusters A = 1
          \<and> (ok differResult \<longleftrightarrow>
                significantPixels A = 0 \<or>
                (of_nat (significantPixels A)
                   \<le> maxTotalDiffPixels
                        (spread (engine_options (noOptions\<lparr>maxSide := Some 2\<rparr>)) noOptions)
                 \<and> of_nat (significantClusters A)
                   \<le> maxSignificantClusters
                        (spread (engine_options (noOptions\<lparr>maxSide := Some 2\<rparr>)) noOptions))))"
proof -
  have z: "diffCount sameResult = 0"
    by (simp add: sameResult_def)
  from C1_verdict [OF example_same] z
  have s: "ok sameResult \<and> detailClusters (details sameResult) = []
             \<and> AnalyzeClusters \<notin> set [ValidateInputs, ProcessImages, Pixelmatch]"
    by blast
  have p: "0 < diffCount differResult"
    by (simp add: differResult_def)
  from C1_verdict [OF example_differ] p
  obtain A where A: "detailAnalysis (details differResult) = Some A"
    "ok differResult \<longleftrightarrow>
                significantPixels A = 0 \<or>
                (of_nat (significantPixels A)
                   \<le> maxTotalDiffPixels
                        (spread (engine_options (noOptions\<lparr>maxSide := Some 2\<rparr>)) noOptions)
                 \<and> of_nat (significantClusters A)
                   \<le> maxSignificantClusters
                        (spread (engine_options (noOptions\<lparr>maxSide := Some 2\<rparr>)) noOptions))"
    by blast
  from A(1) have n: "significantPixels A = 4" "significantClusters A = 1"
    by (auto simp: differResult_def)
  from example_same z s example_differ p A n show ?thesis
    by blast
qed

section \<open>The differs-test\<close>

lemma buf_read_update:
  "buf_read (buffer[k := a]) i = (if i \<ge> 0 \<and> nat i = k \<and> k < length buffer then Some a else buf_read buffer i)"
  by (auto simp: buf_read_def)

lemma cluster_pixels_differ:
  assumes "c \<in> set (findAllClusters this_options buffer width height)" and "p \<in> set (pixels c)"
  shows "isDiffPixel buffer (posOf width p)"
proof -
  from assms have "p \<in> set (allPixels (findAllClusters this_options buffer width height))"
    by (auto simp: allPixels_def)
  with findAllClusters_partition [of this_options buffer width height]
  show ?thesis by (simp add: diffPixels_def)
qed

text \<open>
  C10. The differs-test looks at the first three bytes of a pixel's slot only: where the
  slot lies inside the buffer, the pixel counts as differing exactly when its R, G, B bytes
  are 255, 0, 0; overwriting the alpha byte never changes the outcome; and every pixel of
  every cluster the analyzer returns passes the test, so a pixel with any other marker
  (the yellow 255, 255, 0 of anti-aliasing, say) is in no cluster.
\<close>

theorem C10_diff_test_reads_rgb:
  "(0 \<le> pos \<and> pos + 3 < int (length buffer) \<longrightarrow>
      (isDiffPixel buffer pos \<longleftrightarrow>
         buffer ! nat pos = 255 \<and> buffer ! nat (pos + 1) = 0 \<and> buffer ! nat (pos + 2) = 0))
   \<and> isDiffPixel (buffer[nat (pos + 3) := a]) pos = isDiffPixel buffer pos
   \<and> (\<forall>c \<in> set (clusters (analyzeClusters this_options buffer width height options)).
        \<forall>p \<in> set (pixels c). isDiffPixel buffer (posOf width p))"
proof -
  have "isDiffPixel (buffer[nat (pos + 3) := a]) pos = isDiffPixel buffer pos"
    by (auto simp: isDiffPixel_def buf_read_update)
  moreover have "\<forall>c \<in> set (clusters (analyzeClusters this_options buffer width height options)).
        \<forall>p \<in> set (pixels c). isDiffPixel buffer (posOf width p)"
    using cluster_pixels_differ by (simp add: clusters_analyzeClusters)
  ultimately show ?thesis
    by (simp add: isDiffPixel_def buf_read_def)
qed

text \<open>
  The theorem at a mask of two pixels: a red marker with alpha 128 (or 77) differs, the
  yellow pixel does not, and the only cluster holds the red pixel alone.
\<close>

theorem C10_diff_test_reads_rgb_witness:
  "(0::int) \<le> 0 \<and> (0::int) + 3 < int (length [255, 0, 0, 128, 255, 255, 0, 255 :: byte])
   \<and> isDiffPixel [255, 0, 0, 128, 255, 255, 0, 255] 0
   \<and> isDiffPixel [255, 0, 0, 77, 255, 255, 0, 255] 0
   \<and> \<not> isDiffPixel [255, 0, 0, 128, 255, 255, 0, 255] 4
   \<and> map pixels (clusters (analyzeClusters (engine_options noOptions)
        [255, 0, 0, 128, 255, 255, 0, 255] 2 1 (engine_options noOptions))) = [[(0, 0)]]
   \<and> isDiffPixel [255, 0, 0, 128, 255, 255, 0, 255] (posOf 2 (0, 0))"
proof -
  let ?b = "[255, 0, 0, 128, 255, 255, 0, 255] :: byte list"
  let ?cs = "clusters (analyzeClusters (engine_options noOptions) ?b 2 1 (engine_options noOptions))"
  note t = C10_diff_test_reads_rgb [of 0 ?b 77 "engine_options noOptions" 2 1
      "engine_options noOptions"]
  have r: "(0::int) \<le> 0 \<and> (0::int) + 3 < int (length ?b)"
    by simp
  have m: "map pixels ?cs = [[(0, 0)]]"
    by code_simp
  then have "\<exists>c \<in> set ?cs. (0, 0) \<in> set (pixels c)"
    by (cases ?cs) auto
  with t have d: "isDiffPixel ?b (posOf 2 (0, 0))"
    by blast
  have y: "\<not> isDiffPixel ?b 4"
    by (simp add: isDiffPixel_def buf_read_def)
  from t r have "isDiffPixel ?b 0" "isDiffPixel (?b[nat (0 + 3) := 77]) 0"
    by simp_all
  with r m d y show ?thesis by simp
qed

section \<open>Rounding to a double\<close>

text \<open>
  The bit length and the exponent are what their names say, a rounded significand is
  within one half of the exact one, and a number that rounds to 1 is within \<open>2\<^sup>-\<^sup>5\<^sup>3\<close>
  of 1. So the quotient of two different positive integers below \<open>2\<^sup>5\<^sup>3\<close> never
  rounds to 1.
\<close>

lemma bitLength_bounds:
  "0 < i \<Longrightarrow> 2 ^ (bitLength i - 1) \<le> i \<and> i < 2 ^ bitLength i"
proof (induction i rule: bitLength.induct)
  case (1 i)
  show ?case
  proof (cases "i = 1")
    case True
    then show ?thesis
      by (simp add: bitLength.simps [of 1] bitLength.simps [of 0])
  next
    case False
    with "1.prems" have h: "0 < i div 2" by simp
    with "1.IH" "1.prems" have ih: "2 ^ (bitLength (i div 2) - 1) \<le> i div 2"
      "i div 2 < 2 ^ bitLength (i div 2)"
      by simp_all
    from h have pos: "0 < bitLength (i div 2)"
      by (simp add: bitLength.simps [of "i div 2"])
    have b: "bitLength i = Suc (bitLength (i div 2))"
      using "1.prems" by (simp add: bitLength.simps [of i])
    from pos obtain k where k: "bitLength (i div 2) = Suc k"
      by (cases "bitLength (i div 2)") simp_all
    from ih show ?thesis
      unfolding b k by simp linarith
  qed
qed

lemma pow2_powi: "pow2 e = 2 powi e"
  by (simp add: pow2_def power_int_def inverse_eq_divide power_one_over)

lemma pow2_pos: "0 < pow2 e"
  by (simp add: pow2_powi)

lemma pow2_add: "pow2 (a + b) = pow2 a * pow2 b"
  by (simp add: pow2_powi power_int_add)

lemma pow2_nat: "pow2 (int n) = 2 ^ n"
  by (simp add: pow2_def)

lemma pow2_mono: "a \<le> b \<Longrightarrow> pow2 a \<le> pow2 b"
  by (simp add: pow2_powi power_int_increasing)

lemma exponentOf_bounds:
  assumes "0 < q"
  shows "pow2 (exponentOf q) \<le> q \<and> q < pow2 (exponentOf q + 1)"
proof -
  obtain a b where ab: "quotient_of q = (a, b)" by (cases "quotient_of q")
  then have q: "q = of_int a / of_int b" and b: "0 < b"
    using quotient_of_div quotient_of_denom_pos by blast+
  with assms have a: "0 < a"
    by (simp add: zero_less_divide_iff)
  let ?la = "bitLength a" and ?lb = "bitLength b"
  from bitLength_bounds [OF a] have a1: "(2::rat) ^ (?la - 1) \<le> of_int a" and a2: "of_int a < (2::rat) ^ ?la"
    by (metis of_int_le_iff of_int_numeral of_int_power, metis of_int_less_iff of_int_numeral of_int_power)
  from bitLength_bounds [OF b] have b1: "(2::rat) ^ (?lb - 1) \<le> of_int b" and b2: "of_int b < (2::rat) ^ ?lb"
    by (metis of_int_le_iff of_int_numeral of_int_power, metis of_int_less_iff of_int_numeral of_int_power)
  have la: "0 < ?la" using a by (simp add: bitLength.simps [of a])
  have lb: "0 < ?lb" using b by (simp add: bitLength.simps [of b])
  let ?e0 = "int ?la - int ?lb"
  have br: "(0::rat) < of_int b" using b by simp
  have up: "q < pow2 (?e0 + 1)"
  proof -
    have "q * of_int b = of_int a" using q br by simp
    also have "\<dots> < 2 ^ ?la" by (rule a2)
    also have "\<dots> = pow2 (?e0 + 1) * 2 ^ (?lb - 1)"
    proof -
      have "int ?la = (?e0 + 1) + int (?lb - 1)" using lb by simp
      then have "pow2 (int ?la) = pow2 (?e0 + 1) * pow2 (int (?lb - 1))"
        by (metis pow2_add)
      then show ?thesis by (simp only: pow2_nat)
    qed
    also have "\<dots> \<le> pow2 (?e0 + 1) * of_int b"
      using b1 pow2_pos [of "?e0 + 1"] by simp
    finally show ?thesis using br by simp
  qed
  have low: "pow2 (?e0 - 1) \<le> q"
  proof -
    have "pow2 (?e0 - 1) * of_int b \<le> pow2 (?e0 - 1) * 2 ^ ?lb"
      using b2 pow2_pos [of "?e0 - 1"] by simp
    also have "\<dots> = 2 ^ (?la - 1)"
    proof -
      have "int (?la - 1) = (?e0 - 1) + int ?lb" using la by simp
      then have "pow2 (int (?la - 1)) = pow2 (?e0 - 1) * pow2 (int ?lb)"
        by (metis pow2_add)
      then show ?thesis by (simp only: pow2_nat)
    qed
    also have "\<dots> \<le> of_int a" by (rule a1)
    also have "\<dots> = q * of_int b" using q br by simp
    finally show ?thesis using br by simp
  qed
  show ?thesis
  proof (cases "pow2 ?e0 \<le> q")
    case True
    then have "exponentOf q = ?e0" by (simp add: exponentOf_def ab)
    with True up show ?thesis by simp
  next
    case False
    then have "exponentOf q = ?e0 - 1" by (simp add: exponentOf_def ab)
    with False low show ?thesis by simp
  qed
qed

lemma roundHalfEven_near: "\<bar>of_int (roundHalfEven m) - m\<bar> \<le> 1 / 2"
proof -
  have "of_int \<lfloor>m\<rfloor> \<le> m" "m < of_int \<lfloor>m\<rfloor> + 1"
    by linarith+
  then show ?thesis
    by (auto simp: roundHalfEven_def Let_def)
qed

lemma roundDouble_one:
  assumes "roundDouble q = Num 1"
  shows "\<bar>q - 1\<bar> \<le> 1 / 2 ^ 53"
proof -
  have q: "0 < q"
  proof (rule ccontr)
    assume "\<not> 0 < q"
    then have "q = 0 \<or> q < 0" by linarith
    then show False
    proof
      assume "q = 0" with assms show False by (simp add: roundDouble_def)
    next
      assume n: "q < 0"
      let ?e = "max (exponentOf \<bar>q\<bar>) (- 1022)"
      have "0 \<le> roundPositive \<bar>q\<bar>"
      proof -
        have "0 \<le> \<bar>q\<bar> / pow2 (?e - 52)" using pow2_pos [of "?e - 52"] by simp
        then have "0 \<le> roundHalfEven (\<bar>q\<bar> / pow2 (?e - 52))"
          using roundHalfEven_near [of "\<bar>q\<bar> / pow2 (?e - 52)"] by linarith
        then show ?thesis
          using pow2_pos [of "?e - 52"] by (simp add: roundPositive_def Let_def)
      qed
      with assms n show False
        by (simp add: roundDouble_def Let_def split: if_splits)
    qed
  qed
  let ?e = "max (exponentOf q) (- 1022)"
  let ?u = "pow2 (?e - 52)"
  let ?R = "roundHalfEven (q / ?u)"
  have u: "0 < ?u" by (rule pow2_pos)
  from assms q have one: "of_int ?R * ?u = 1"
    by (simp add: roundDouble_def roundPositive_def Let_def split: if_splits)
  have near: "\<bar>of_int ?R - q / ?u\<bar> \<le> 1 / 2" by (rule roundHalfEven_near)
  have "\<bar>1 - q\<bar> = \<bar>of_int ?R - q / ?u\<bar> * ?u"
  proof -
    have "(of_int ?R - q / ?u) * ?u = 1 - q"
      using u one by (simp add: algebra_simps)
    then have "\<bar>1 - q\<bar> = \<bar>(of_int ?R - q / ?u) * ?u\<bar>" by simp
    also have "\<dots> = \<bar>of_int ?R - q / ?u\<bar> * ?u"
      using u by (simp add: abs_mult)
    finally show ?thesis .
  qed
  also have "\<dots> \<le> (1 / 2) * ?u"
    using near u by (simp add: mult_right_mono)
  finally have d: "\<bar>1 - q\<bar> \<le> ?u / 2" by simp
  have small: "?u \<le> pow2 (- 52)"
  proof (cases "- 1022 \<le> exponentOf q")
    case True
    then have e: "?e = exponentOf q" by simp
    have "pow2 (exponentOf q) \<le> q" using exponentOf_bounds [OF q] by simp
    moreover have "pow2 (exponentOf q) = pow2 52 * ?u"
      unfolding e using pow2_add [of 52 "exponentOf q - 52"] by simp
    ultimately have "pow2 52 \<le> q / ?u"
      using u by (simp add: pos_le_divide_eq)
    with near have "pow2 52 - 1 / 2 \<le> of_int ?R" by linarith
    then have "(2::rat) ^ 52 - 1 / 2 \<le> of_int ?R"
      using pow2_nat [of 52] by simp
    then have "(2::rat) ^ 52 - 1 < of_int ?R" by linarith
    then have "(2::int) ^ 52 - 1 < ?R"
      by (metis (mono_tags, opaque_lifting) of_int_1 of_int_diff of_int_less_iff of_int_numeral of_int_power)
    then have "(2::int) ^ 52 \<le> ?R" by linarith
    then have R: "(2::rat) ^ 52 \<le> of_int ?R"
      by (metis of_int_le_iff of_int_numeral of_int_power)
    moreover have "(0::rat) < 2 ^ 52" by simp
    ultimately have Rpos: "(0::rat) < of_int ?R" by linarith
    from one Rpos have "?u = 1 / of_int ?R"
      by (simp add: field_simps)
    also have "\<dots> \<le> 1 / 2 ^ 52"
      using R by (simp add: frac_le)
    also have "\<dots> = pow2 (- 52)" by (simp add: pow2_def)
    finally show ?thesis .
  next
    case False
    then have "?e - 52 \<le> - 52" by simp
    then show ?thesis by (rule pow2_mono)
  qed
  have "pow2 (- 52) / 2 = 1 / 2 ^ 53"
    by (simp add: pow2_def)
  with d small have "\<bar>1 - q\<bar> \<le> 1 / 2 ^ 53" by linarith
  then show ?thesis by (simp add: abs_minus_commute)
qed

lemma roundDouble_1: "roundDouble 1 = Num 1"
  by code_simp

lemma divNum_one:
  assumes "0 < w" and "0 < h" and "h < 2 ^ 53"
  shows "divNum (of_nat w) (of_nat h) = Num 1 \<longleftrightarrow> w = h"
proof
  assume "w = h"
  with assms(2) show "divNum (of_nat w) (of_nat h) = Num 1"
    by (simp add: divNum_def roundDouble_1)
next
  assume d: "divNum (of_nat w) (of_nat h) = Num 1"
  show "w = h"
  proof (rule ccontr)
    assume n: "w \<noteq> h"
    from d assms(2) have "roundDouble (of_nat w / of_nat h) = Num 1"
      by (simp add: divNum_def)
    then have c: "\<bar>of_nat w / of_nat h - (1::rat)\<bar> \<le> 1 / 2 ^ 53"
      by (rule roundDouble_one)
    have hr: "(0::rat) < of_nat h" using assms(2) by simp
    have "(1::rat) \<le> \<bar>of_nat w - of_nat h\<bar>"
    proof -
      from n have "(1::int) \<le> \<bar>int w - int h\<bar>" by linarith
      then have "(of_int 1 :: rat) \<le> of_int \<bar>int w - int h\<bar>"
        by (simp only: of_int_le_iff)
      then show ?thesis by simp
    qed
    then have "1 / of_nat h \<le> \<bar>of_nat w - of_nat h\<bar> / (of_nat h :: rat)"
      using hr by (simp add: divide_right_mono)
    also have "\<dots> = \<bar>of_nat w / of_nat h - (1::rat)\<bar>"
    proof -
      have "of_nat w / of_nat h - (1::rat) = (of_nat w - of_nat h) / of_nat h"
        using hr by (simp add: field_simps)
      then show ?thesis
        using hr by (simp only: abs_divide abs_of_nat)
    qed
    finally have "1 / (of_nat h :: rat) \<le> 1 / 2 ^ 53"
      using c by linarith
    then have "(2::rat) ^ 53 \<le> of_nat h"
      using hr by (simp add: field_simps)
    moreover from assms(3) have "(of_nat h :: rat) < of_nat (2 ^ 53)"
      by (simp only: of_nat_less_iff)
    ultimately show False by simp
  qed
qed

section \<open>Claims about the image processor\<close>

text \<open>
  C5. For two inputs that \<^verbatim>\<open>_toCanvas\<close> accepts, the expected one with positive sides
  (below \<open>2\<^sup>5\<^sup>3\<close>, as every integer a double holds exactly): the scale is the minimum of
  \<^verbatim>\<open>maxSide / width\<close> and \<^verbatim>\<open>maxSide / height\<close> of the expected canvas, doubled exactly
  when \<open>width \<noteq> height\<close>; both canvases are resized by this one factor and drawn onto
  canvases of the resized expected image's dimensions, so both image data returned have
  the same width and height, whatever the candidate's size. Quotients and products are
  those of the source, rounded to doubles.
\<close>

theorem C5_canonical_size:
  assumes "toCanvas ext actualIn = Inr a" and "toCanvas ext expectedIn = Inr e"
    and "0 < cwidth e" and "0 < cheight e" and "cheight e < 2 ^ 53"
  shows "calculateScale e (maxSide options)
           = (if cwidth e \<noteq> cheight e
              then mulNum (minNum (divNum (maxSide options) (of_nat (cwidth e)))
                             (divNum (maxSide options) (of_nat (cheight e)))) (Num 2)
              else minNum (divNum (maxSide options) (of_nat (cwidth e)))
                     (divNum (maxSide options) (of_nat (cheight e))))
       \<and> (\<exists>im. processImages ext actualIn expectedIn options = Inr im
             \<and> pwidth im = newSide ext (ceilNum (mulNum (Num (of_nat (cwidth e)))
                                           (calculateScale e (maxSide options))))
             \<and> pheight im = newSide ext (ceilNum (mulNum (Num (of_nat (cheight e)))
                                            (calculateScale e (maxSide options))))
             \<and> actualImageData im =
                 \<lparr>cwidth = pwidth im, cheight = pheight im,
                  cdata = drawOnBackground ext
                            (resizeImage ext a (calculateScale e (maxSide options)))
                            (pwidth im) (pheight im) (backgroundColor options)\<rparr>
             \<and> expectedImageData im =
                 \<lparr>cwidth = pwidth im, cheight = pheight im,
                  cdata = drawOnBackground ext
                            (resizeImage ext e (calculateScale e (maxSide options)))
                            (pwidth im) (pheight im) (backgroundColor options)\<rparr>)"
proof -
  have "calculateScale e (maxSide options)
           = (if cwidth e \<noteq> cheight e
              then mulNum (minNum (divNum (maxSide options) (of_nat (cwidth e)))
                             (divNum (maxSide options) (of_nat (cheight e)))) (Num 2)
              else minNum (divNum (maxSide options) (of_nat (cwidth e)))
                     (divNum (maxSide options) (of_nat (cheight e))))"
    unfolding calculateScale_def Let_def divNum_one [OF assms(3,4,5)] by simp
  moreover have "\<exists>im. processImages ext actualIn expectedIn options = Inr im
             \<and> pwidth im = newSide ext (ceilNum (mulNum (Num (of_nat (cwidth e)))
                                           (calculateScale e (maxSide options))))
             \<and> pheight im = newSide ext (ceilNum (mulNum (Num (of_nat (cheight e)))
                                            (calculateScale e (maxSide options))))
             \<and> actualImageData im =
                 \<lparr>cwidth = pwidth im, cheight = pheight im,
                  cdata = drawOnBackground ext
                            (resizeImage ext a (calculateScale e (maxSide options)))
                            (pwidth im) (pheight im) (backgroundColor options)\<rparr>
             \<and> expectedImageData im =
                 \<lparr>cwidth = pwidth im, cheight = pheight im,
                  cdata = drawOnBackground ext
                            (resizeImage ext e (calculateScale e (maxSide options)))
                            (pwidth im) (pheight im) (backgroundColor options)\<rparr>"
    using assms(1,2)
    by (simp add: processImages_def Let_def resizeImage_def createStandardizedCanvas_def
        getImageData_def)
  ultimately show ?thesis by blast
qed

text \<open>
  The theorem at a 100 by 200 baseline with \<open>maxSide = 800\<close> and a 30 by 50 candidate:
  scale 8 and two image data of 800 by 1600.
\<close>

theorem C5_canonical_size_witness:
  "toCanvas (stubLibrary 0 []) (CanvasIn candidate) = Inr candidate
   \<and> toCanvas (stubLibrary 0 []) (CanvasIn portrait) = Inr portrait
   \<and> 0 < cwidth portrait \<and> 0 < cheight portrait \<and> cheight portrait < 2 ^ 53
   \<and> calculateScale portrait (maxSide (engine_options (noOptions\<lparr>maxSide := Some 800\<rparr>)))
       = Num 8
   \<and> (\<exists>im. processImages (stubLibrary 0 []) (CanvasIn candidate) (CanvasIn portrait)
               (engine_options (noOptions\<lparr>maxSide := Some 800\<rparr>)) = Inr im
          \<and> pwidth im = 800 \<and> pheight im = 1600
          \<and> cwidth (actualImageData im) = 800 \<and> cheight (actualImageData im) = 1600
          \<and> cwidth (expectedImageData im) = 800 \<and> cheight (expectedImageData im) = 1600)"
proof -
  let ?o = "engine_options (noOptions\<lparr>maxSide := Some 800\<rparr>)"
  have a: "toCanvas (stubLibrary 0 []) (CanvasIn candidate) = Inr candidate"
    and e: "toCanvas (stubLibrary 0 []) (CanvasIn portrait) = Inr portrait"
    by (simp_all add: toCanvas_def portrait_def candidate_def)
  have w: "0 < cwidth portrait" and h: "0 < cheight portrait"
    and l: "cheight portrait < 2 ^ 53"
    by (simp_all add: portrait_def)
  note t = C5_canonical_size [OF a e w h l, of ?o]
  have s: "calculateScale portrait (maxSide ?o) = Num 8"
    by code_simp
  have sw: "newSide (stubLibrary 0 []) (ceilNum (mulNum (Num (of_nat (cwidth portrait))) (Num 8)))
              = 800"
    and sh: "newSide (stubLibrary 0 []) (ceilNum (mulNum (Num (of_nat (cheight portrait))) (Num 8)))
              = 1600"
    by code_simp+
  from t obtain im where im:
    "processImages (stubLibrary 0 []) (CanvasIn candidate) (CanvasIn portrait) ?o = Inr im"
    "pwidth im = newSide (stubLibrary 0 []) (ceilNum (mulNum (Num (of_nat (cwidth portrait)))
                                           (calculateScale portrait (maxSide ?o))))"
    "pheight im = newSide (stubLibrary 0 []) (ceilNum (mulNum (Num (of_nat (cheight portrait)))
                                            (calculateScale portrait (maxSide ?o))))"
    "actualImageData im =
       \<lparr>cwidth = pwidth im, cheight = pheight im,
        cdata = drawOnBackground (stubLibrary 0 [])
                  (resizeImage (stubLibrary 0 []) candidate (calculateScale portrait (maxSide ?o)))
                  (pwidth im) (pheight im) (backgroundColor ?o)\<rparr>"
    "expectedImageData im =
       \<lparr>cwidth = pwidth im, cheight = pheight im,
        cdata = drawOnBackground (stubLibrary 0 [])
                  (resizeImage (stubLibrary 0 []) portrait (calculateScale portrait (maxSide ?o)))
                  (pwidth im) (pheight im) (backgroundColor ?o)\<rparr>"
    by (elim conjE exE)
  have d: "pwidth im = 800" "pheight im = 1600"
    unfolding im(2,3) s by (simp_all only: sw sh)
  have "cwidth (actualImageData im) = 800" "cheight (actualImageData im) = 1600"
    "cwidth (expectedImageData im) = 800" "cheight (expectedImageData im) = 1600"
    unfolding im(4,5) by (simp_all add: d)
  with a e w h l s im(1) d show ?thesis
    by blast
qed

text \<open>
  Rounding shows in the sizes: for a 3 by 11 baseline and \<open>maxSide = 400\<close> the scale is
  the double \<open>72.72727272727273\<close>, not \<open>800 / 11\<close>, and the product \<open>11 * scale\<close> is
  the double just above 800, so the canonical height is 801.
\<close>

lemma rounded_size_example:
  "calculateScale narrowCanvas 400 = Num (5117726849284655 / 70368744177664)
   \<and> (5117726849284655 / 70368744177664 :: rat) \<noteq> 2 * min (400 / 3) (400 / 11)
   \<and> map_sum id (\<lambda>im. (pwidth im, pheight im))
        (processImages (stubLibrary 0 []) (CanvasIn narrowCanvas) (CanvasIn narrowCanvas)
           (engine_options noOptions))
       = Inr (219, 801)"
  by code_simp

section \<open>Claims about the engine\<close>

text \<open>
  C6, as the claim states it, fails: with a missing actual image the caller of the
  engine's \<^verbatim>\<open>compare\<close> receives a \<^verbatim>\<open>ComparisonError\<close>, not a
  \<^verbatim>\<open>ValidationError\<close>.
\<close>

theorem C6_missing_input_counterexample:
  "snd (engine_compare (stubLibrary 0 []) noOptions None square2 noOptions)
     = Inl (ComparisonError ''Comparison failed: Both actual and expected images are required''
              (ValidationError ''Both actual and expected images are required''))
   \<and> snd (engine_compare (stubLibrary 0 []) noOptions None square2 noOptions)
     \<noteq> Inl (ValidationError ''Both actual and expected images are required'')"
  by (simp add: engine_compare_def comparator_compare_def validateInputs_def falsy_def Let_def)

text \<open>
  C6, amended. Where the actual or the expected image is missing, the comparator raises
  the \<^verbatim>\<open>ValidationError\<close> having entered no stage but the validation, and the engine's
  \<^verbatim>\<open>compare\<close> hands it to the caller wrapped in a \<^verbatim>\<open>ComparisonError\<close> whose cause
  it is.
\<close>

theorem C6_missing_input_wrapped:
  assumes "a = None \<or> e = None"
  shows "comparator_compare ext this_options a e options
           = ([ValidateInputs],
              Inl (ValidationError ''Both actual and expected images are required''))
       \<and> engine_compare ext ctor_options a e options
           = ([ValidateInputs],
              Inl (ComparisonError
                     ''Comparison failed: Both actual and expected images are required''
                     (ValidationError ''Both actual and expected images are required'')))"
proof -
  from assms have "validateInputs a e
      = Inl (ValidationError ''Both actual and expected images are required'')"
    by (auto simp: validateInputs_def falsy_def split: option.splits)
  then have "comparator_compare ext t a e opts
           = ([ValidateInputs],
              Inl (ValidationError ''Both actual and expected images are required''))" for t opts
    by (simp add: comparator_compare_def Let_def)
  then show ?thesis
    by (simp add: engine_compare_def Let_def)
qed

text \<open>The theorem at a call whose actual image is missing.\<close>

theorem C6_missing_input_wrapped_witness:
  "((None :: image_input option) = None \<or> square2 = None)
   \<and> comparator_compare (stubLibrary 0 []) (engine_options noOptions) None square2 noOptions
           = ([ValidateInputs],
              Inl (ValidationError ''Both actual and expected images are required''))
   \<and> engine_compare (stubLibrary 0 []) noOptions None square2 noOptions
           = ([ValidateInputs],
              Inl (ComparisonError
                     ''Comparison failed: Both actual and expected images are required''
                     (ValidationError ''Both actual and expected images are required'')))"
proof -
  have h: "(None :: image_input option) = None \<or> square2 = None"
    by simp
  from C6_missing_input_wrapped [OF h, of "stubLibrary 0 []" "engine_options noOptions"
      noOptions noOptions] h
  show ?thesis by blast
qed

lemma batchLoop_map:
  "batchLoop ext this_options mergedOptions pairs results
     = results @ map (entryOf ext this_options mergedOptions) pairs"
  by (induction pairs arbitrary: results) (simp_all add: entryOf_def split: sum.splits)

text \<open>
  C7. \<^verbatim>\<open>batchCompare\<close> returns one entry per pair, in the order of the pairs; the entry
  of a pair whose comparison throws is \<^verbatim>\<open>{ name, ok: false, error: message }\<close>, and the
  entry of any other pair is its name with the result of its own comparison.
\<close>

theorem C7_batch_entries:
  "length (batchCompare ext ctor_options pairs options) = length pairs
   \<and> (\<forall>i < length pairs.
        (\<forall>error.
           snd (comparator_compare ext (engine_options ctor_options)
                  (actual (pairs ! i)) (expected (pairs ! i))
                  (allKeys (spread (engine_options ctor_options) options))) = Inl error
           \<longrightarrow> batchCompare ext ctor_options pairs options ! i
                 = ErrorEntry (name (pairs ! i)) False (message error))
        \<and> (\<forall>result.
           snd (comparator_compare ext (engine_options ctor_options)
                  (actual (pairs ! i)) (expected (pairs ! i))
                  (allKeys (spread (engine_options ctor_options) options))) = Inr result
           \<longrightarrow> batchCompare ext ctor_options pairs options ! i
                 = ResultEntry (name (pairs ! i)) result))"
proof -
  let ?t = "engine_options ctor_options"
  let ?m = "allKeys (spread ?t options)"
  have b: "batchCompare ext ctor_options pairs options = map (entryOf ext ?t ?m) pairs"
    using batchLoop_map [of ext ?t ?m pairs "[]"] by (simp add: batchCompare_def Let_def)
  have "batchCompare ext ctor_options pairs options ! i = entryOf ext ?t ?m (pairs ! i)"
    if "i < length pairs" for i
    using that by (simp add: b)
  then show ?thesis
    by (simp add: b entryOf_def)
qed

text \<open>
  The theorem at a batch of three pairs, the second with an input of no supported shape:
  three entries, the second the error entry, the first and third normal results.
\<close>

theorem C7_batch_entries_witness:
  "(1::nat) < length threePairs
   \<and> snd (comparator_compare (stubLibrary 0 []) (engine_options (noOptions\<lparr>maxSide := Some 2\<rparr>))
            (actual (threePairs ! 1)) (expected (threePairs ! 1))
            (allKeys (spread (engine_options (noOptions\<lparr>maxSide := Some 2\<rparr>)) noOptions)))
       = Inl (unsupported ''string'')
   \<and> length (batchCompare (stubLibrary 0 []) (noOptions\<lparr>maxSide := Some 2\<rparr>) threePairs noOptions) = 3
   \<and> batchCompare (stubLibrary 0 []) (noOptions\<lparr>maxSide := Some 2\<rparr>) threePairs noOptions ! 1
       = ErrorEntry ''second'' False (message (unsupported ''string''))
   \<and> batchCompare (stubLibrary 0 []) (noOptions\<lparr>maxSide := Some 2\<rparr>) threePairs noOptions
       = [ResultEntry ''first'' sameResult,
          ErrorEntry ''second'' False (message (unsupported ''string'')),
          ResultEntry ''third'' sameResult]"
proof -
  have l: "(1::nat) < length threePairs"
    by (simp add: threePairs_def)
  have e: "snd (comparator_compare (stubLibrary 0 []) (engine_options (noOptions\<lparr>maxSide := Some 2\<rparr>))
            (actual (threePairs ! 1)) (expected (threePairs ! 1))
            (allKeys (spread (engine_options (noOptions\<lparr>maxSide := Some 2\<rparr>)) noOptions)))
       = Inl (unsupported ''string'')"
    by code_simp
  have a: "batchCompare (stubLibrary 0 []) (noOptions\<lparr>maxSide := Some 2\<rparr>) threePairs noOptions
       = [ResultEntry ''first'' sameResult,
          ErrorEntry ''second'' False (message (unsupported ''string'')),
          ResultEntry ''third'' sameResult]"
    by code_simp
  have n: "name (threePairs ! 1) = ''second''" "length threePairs = 3"
    by (simp_all add: threePairs_def)
  note t = C7_batch_entries [of "stubLibrary 0 []" "noOptions\<lparr>maxSide := Some 2\<rparr>" threePairs noOptions]
  from t have "length (batchCompare (stubLibrary 0 []) (noOptions\<lparr>maxSide := Some 2\<rparr>) threePairs noOptions) = 3"
    unfolding n(2) by (rule conjunct1)
  moreover from t l e
  have "batchCompare (stubLibrary 0 []) (noOptions\<lparr>maxSide := Some 2\<rparr>) threePairs noOptions ! 1
       = ErrorEntry (name (threePairs ! 1)) False (message (unsupported ''string''))"
    by blast
  ultimately show ?thesis
    using l e a n(1) by simp
qed

subsection \<open>The cascade of options\<close>

text \<open>
  The merged options of a call are resolved key by key: the per-call value, else the
  constructor's value, else the default.
\<close>

lemma merged_options_cascade:
  "threshold (spread (engine_options ctor_options) options)
     = pick (threshold options) (pick (threshold ctor_options) (1 / 2))"
  "includeAA (spread (engine_options ctor_options) options)
     = pick (includeAA options) (pick (includeAA ctor_options) False)"
  "alpha (spread (engine_options ctor_options) options)
     = pick (alpha options) (pick (alpha ctor_options) (dbl (1 / 10)))"
  "maxSide (spread (engine_options ctor_options) options)
     = pick (maxSide options) (pick (maxSide ctor_options) 400)"
  "backgroundColor (spread (engine_options ctor_options) options)
     = pick (backgroundColor options) (pick (backgroundColor ctor_options) [240, 240, 240, 255])"
  "minClusterSize (spread (engine_options ctor_options) options)
     = pick (minClusterSize options) (pick (minClusterSize ctor_options) 4)"
  "maxTotalDiffPixels (spread (engine_options ctor_options) options)
     = pick (maxTotalDiffPixels options) (pick (maxTotalDiffPixels ctor_options) 40)"
  "maxSignificantClusters (spread (engine_options ctor_options) options)
     = pick (maxSignificantClusters options) (pick (maxSignificantClusters ctor_options) 2)"
  "lineShiftThreshold (spread (engine_options ctor_options) options)
     = pick (lineShiftThreshold options) (pick (lineShiftThreshold ctor_options) (dbl (4 / 5)))"
  by (simp_all add: spread_def engine_options_def pick_def orDefault_def split: option.splits)

text \<open>
  The comparator reads every key from the merged options except
  \<^verbatim>\<open>lineShiftThreshold\<close>, which \<^verbatim>\<open>_detectLineShift\<close> reads from the analyzer's
  \<^verbatim>\<open>this.options\<close>: the per-call value of that key changes nothing.
\<close>

lemma spread_allKeys: "spread c (allKeys d) = d"
  by (simp add: spread_def allKeys_def pick_def)

lemma analyzeClusters_options:
  "minClusterSize options = minClusterSize options'
     \<Longrightarrow> analyzeClusters this_options buffer width height options
         = analyzeClusters this_options buffer width height options'"
  by (simp add: analyzeClusters_def isSignificant_def [abs_def])

lemma lineShiftThreshold_override_ignored:
  "engine_compare ext ctor_options a e (options\<lparr>lineShiftThreshold := t\<rparr>)
     = engine_compare ext ctor_options a e options"
proof -
  let ?t = "engine_options ctor_options"
  let ?m = "spread ?t options"
  let ?m' = "spread ?t (options\<lparr>lineShiftThreshold := t\<rparr>)"
  have m: "?m' = ?m\<lparr>lineShiftThreshold := pick t (lineShiftThreshold ?t)\<rparr>"
    by (simp add: spread_def)
  have f: "maxSide ?m' = maxSide ?m" "backgroundColor ?m' = backgroundColor ?m"
    by (simp_all add: m)
  have p: "processImages ext x y ?m' = processImages ext x y ?m" for x y
    unfolding processImages_def f ..
  have an: "analyzeClusters ?t b w h ?m' = analyzeClusters ?t b w h ?m" for b w h
    by (rule analyzeClusters_options) (simp add: m)
  have ev: "evaluateSignificance A ?m' = evaluateSignificance A ?m" for A
    by (simp add: evaluateSignificance_def m)
  have th: "threshold ?m' = threshold ?m" "includeAA ?m' = includeAA ?m" "alpha ?m' = alpha ?m"
    by (simp_all add: m)
  have "comparator_compare ext ?t a e (allKeys ?m') = comparator_compare ext ?t a e (allKeys ?m)"
    unfolding comparator_compare_def spread_allKeys Let_def p an ev th ..
  then show ?thesis
    by (simp add: engine_compare_def Let_def)
qed

text \<open>
  C8 at a call that overrides \<^verbatim>\<open>lineShiftThreshold\<close> with 1, on a one-pixel image whose
  pixel differs: the merged options hold 1, the cluster's ratio \<open>1 / 1\<close> is not greater
  than 1, and still the cluster is reported as a line shift and the verdict is \<open>ok\<close>.
\<close>

theorem C8_lineShift_override_not_applied:
  "engine_compare (stubLibrary 1 [255, 0, 0, 255]) (noOptions\<lparr>maxSide := Some 1\<rparr>)
     onePixel onePixel
     (noOptions\<lparr>minClusterSize := Some 1, maxTotalDiffPixels := Some 0,
                lineShiftThreshold := Some 1\<rparr>)
     = ([ValidateInputs, ProcessImages, Pixelmatch, AnalyzeClusters, EvaluateSignificance],
        Inr overrideResult)
   \<and> lineShiftThreshold
        (spread (engine_options (noOptions\<lparr>maxSide := Some 1\<rparr>))
           (noOptions\<lparr>minClusterSize := Some 1, maxTotalDiffPixels := Some 0,
                      lineShiftThreshold := Some 1\<rparr>)) = 1
   \<and> map isLineShift (detailClusters (details overrideResult)) = [True]
   \<and> \<not> (of_nat (countLinelike [255, 0, 0, 255] 1 1 [(0, 0)]) / of_nat 1 > (1 :: rat))"
proof -
  have "engine_compare (stubLibrary 1 [255, 0, 0, 255]) (noOptions\<lparr>maxSide := Some 1\<rparr>)
     onePixel onePixel
     (noOptions\<lparr>minClusterSize := Some 1, maxTotalDiffPixels := Some 0,
                lineShiftThreshold := Some 1\<rparr>)
     = ([ValidateInputs, ProcessImages, Pixelmatch, AnalyzeClusters, EvaluateSignificance],
        Inr overrideResult)"
    by code_simp
  moreover have "countLinelike [255, 0, 0, 255] 1 1 [(0, 0)] = 1"
    by code_simp
  ultimately show ?thesis
    by (simp add: merged_options_cascade noOptions_def pick_def overrideResult_def)
qed

end
